theory Spec2Isabelle
  imports Main "HOL-Library.FSet" "HOL-Library.Sublist" "HOL-Library.List_Lexorder"
begin

section \<open>Python values\<close>

text \<open>
  The program is \<^verbatim>\<open>suno-unfollow.py\<close>. A Python \<^verbatim>\<open>str\<close> is a sequence of Unicode code
  points; it is modelled as a list of natural numbers, and \<open>ascii\<close> embeds the string
  literals of the source. The character classes of the Python runtime (\<^verbatim>\<open>str.isspace\<close>,
  and \<^verbatim>\<open>str.isalnum\<close>, on which \<^verbatim>\<open>\w\<close> rests) are written out for the code points below
  128; beyond them they are the runtime's Unicode tables (with the values of the decimal
  digits, which \<^verbatim>\<open>int\<close> reads), which are not part of the program and are taken as a
  parameter \<open>U\<close>. Logging is not modelled, and of the exceptions only the subclasses of
  \<^verbatim>\<open>Exception\<close> are (an interrupt is none).
\<close>

type_synonym pystr = "nat list"

definition ascii :: "string \<Rightarrow> pystr" where
  "ascii s = map of_char s"

record unicode =
  isalnum_hi :: "nat \<Rightarrow> bool"
  isspace_hi :: "nat \<Rightarrow> bool"
  digit_hi :: "nat \<Rightarrow> nat option"

text \<open>A table with no letters, digits or blanks beyond ASCII, for evaluating ASCII inputs.\<close>

definition ascii_tables :: unicode where
  "ascii_tables =
     \<lparr>isalnum_hi = (\<lambda>c. False), isspace_hi = (\<lambda>c. False), digit_hi = (\<lambda>c. None)\<rparr>"

text \<open>\<^verbatim>\<open>str.isspace\<close> of one code point: tab to carriage return, the four separators
  28 to 31 and the blank.\<close>

definition isspace :: "unicode \<Rightarrow> nat \<Rightarrow> bool" where
  "isspace U c =
     (if c < 128 then (9 \<le> c \<and> c \<le> 13) \<or> (28 \<le> c \<and> c \<le> 32) else isspace_hi U c)"

text \<open>The class \<^verbatim>\<open>\w\<close> of \<^verbatim>\<open>re\<close> on a \<^verbatim>\<open>str\<close> pattern: alphanumeric or the underscore.\<close>

definition word_char :: "unicode \<Rightarrow> nat \<Rightarrow> bool" where
  "word_char U c =
     (if c < 128
      then (48 \<le> c \<and> c \<le> 57) \<or> (65 \<le> c \<and> c \<le> 90) \<or> c = 95 \<or> (97 \<le> c \<and> c \<le> 122)
      else isalnum_hi U c)"

text \<open>\<^verbatim>\<open>s.strip()\<close> and \<^verbatim>\<open>s.replace('@', '')\<close> (64 is the code point of \<^verbatim>\<open>@\<close>).\<close>

definition strip :: "unicode \<Rightarrow> pystr \<Rightarrow> pystr" where
  "strip U s = rev (dropWhile (isspace U) (rev (dropWhile (isspace U) s)))"

definition replace_at :: "pystr \<Rightarrow> pystr" where
  "replace_at s = filter (\<lambda>c. c \<noteq> 64) s"

text \<open>
  The values a decoded JSON body can hold (numbers are integers, as the listing API
  gives them; floating point is left out). A \<^verbatim>\<open>dict\<close> is an association list, read by
  \<open>map_of\<close>.
\<close>

datatype json =
    JNull
  | JBool bool
  | JInt int
  | JStr pystr
  | JArr "json list"
  | JObj "(pystr \<times> json) list"

text \<open>Python's truth value of an object, as \<^verbatim>\<open>not x\<close> tests it.\<close>

fun truthy :: "json \<Rightarrow> bool" where
  "truthy JNull = False"
| "truthy (JBool b) = b"
| "truthy (JInt n) = (n \<noteq> 0)"
| "truthy (JStr s) = (s \<noteq> [])"
| "truthy (JArr xs) = (xs \<noteq> [])"
| "truthy (JObj kvs) = (kvs \<noteq> [])"

fun is_str :: "json \<Rightarrow> bool" where
  "is_str (JStr s) = True"
| "is_str v = False"

fun is_dict :: "json \<Rightarrow> bool" where
  "is_dict (JObj kvs) = True"
| "is_dict v = False"

section \<open>Identity: \<^verbatim>\<open>User.validate_username\<close>\<close>

text \<open>
  \<^verbatim>\<open>re.match(r'^[\w\-]{2,30}$', cleaned)\<close>: between 2 and 30 characters of the class
  (45 is the hyphen), up to the end of the string; Python's \<^verbatim>\<open>$\<close> also matches just
  before a line feed (10) that ends the string.
\<close>

definition handle_class :: "unicode \<Rightarrow> nat \<Rightarrow> bool" where
  "handle_class U c = (word_char U c \<or> c = 45)"

definition handle_pattern :: "unicode \<Rightarrow> pystr \<Rightarrow> bool" where
  "handle_pattern U s = (2 \<le> length s \<and> length s \<le> 30 \<and> list_all (handle_class U) s)"

definition re_match_handle :: "unicode \<Rightarrow> pystr \<Rightarrow> bool" where
  "re_match_handle U s =
     (handle_pattern U s \<or> (s \<noteq> [] \<and> last s = 10 \<and> handle_pattern U (butlast s)))"

definition validate_username :: "unicode \<Rightarrow> json \<Rightarrow> bool" where
  "validate_username U username =
     (if \<not> truthy username \<or> \<not> is_str username then False
      else case username of
             JStr s \<Rightarrow> re_match_handle U (strip U (replace_at s))
           | _ \<Rightarrow> False)"

text \<open>
  The cleaning as the specification words it: surrounding whitespace and one leading
  \<^verbatim>\<open>@\<close> are stripped, and the result is checked against the pattern.
\<close>

definition spec_cleaned :: "unicode \<Rightarrow> pystr \<Rightarrow> pystr" where
  "spec_cleaned U s =
     strip U (case strip U s of [] \<Rightarrow> [] | c # r \<Rightarrow> if c = 64 then r else c # r)"

definition spec_validate :: "unicode \<Rightarrow> json \<Rightarrow> bool" where
  "spec_validate U v = (case v of JStr s \<Rightarrow> handle_pattern U (spec_cleaned U s) | _ \<Rightarrow> False)"

section \<open>Reconciler\<close>

text \<open>
  The dataclass \<^verbatim>\<open>User\<close> and the three lines of \<^verbatim>\<open>find_and_unfollow_nonreciprocal\<close>
  that build the two sets of user names and subtract them.
\<close>

record User =
  username :: pystr

definition usernames :: "User list \<Rightarrow> pystr fset" where
  "usernames us = fset_of_list (map username us)"

definition users_to_unfollow :: "User list \<Rightarrow> User list \<Rightarrow> pystr fset" where
  "users_to_unfollow following followers = usernames following |-| usernames followers"

section \<open>The environment: browser, remote API, exceptions\<close>

text \<open>
  The exceptions the program raises or meets. \<open>EngineError\<close> is an error raised by the
  browser engine (a navigation timeout, a failed in-page \<^verbatim>\<open>fetch\<close>); it is an
  \<^verbatim>\<open>Exception\<close> and no \<^verbatim>\<open>SessionError\<close>. \<open>Exception\<close> is \<^verbatim>\<open>raise Exception(msg)\<close>.
\<close>

datatype exn =
    SessionError pystr
  | RateLimitError pystr
  | Exception pystr
  | EngineError pystr
  | ValueError
  | TypeError
  | KeyError
  | AttributeError

fun is_session_error :: "exn \<Rightarrow> bool" where
  "is_session_error (SessionError m) = True"
| "is_session_error e = False"

text \<open>
  What the program does to the outside, in the order it does it. A harvest is one
  navigation to a listing page followed by the wait of up to 20 seconds for the response
  listener to capture the headers; the settle sleeps inside it belong to the event.
\<close>

datatype event =
    Harvest pystr
  | RefreshAuth
  | Request pystr int
  | EnsureAuth
  | Post pystr
  | VerifySession
  | Sleep int
  | SleepUniform int int
  | ClosePage
  | CloseContext
  | StopPlaywright

datatype harvest_outcome = Captured | NotCaptured | NavError pystr

datatype fetch_outcome = Returned json | Thrown pystr

datatype post_outcome = Response int "(pystr \<times> pystr) list" | PostError pystr

text \<open>
  The browser and the remote API are not part of the program. They answer each
  operation as a function of everything the program did before (the trace), so that any
  deterministic mock is a \<open>world\<close>, and a property proved for every \<open>world\<close> holds however
  the environment behaves:
  \<^item> \<open>harvest tr page_type\<close>: whether the listener captures headers when the collector
    navigates to \<^verbatim>\<open>/me/<page_type>\<close>, or the navigation raises;
  \<^item> \<open>fetch tr page_type n\<close>: the in-page fetch of page \<open>n\<close> of the listing; \<open>Thrown msg\<close>
    is an exception whose \<^verbatim>\<open>str\<close> is \<open>msg\<close>;
  \<^item> \<open>ensure tr\<close>: the harvest of \<^verbatim>\<open>unfollow_user\<close>, on \<^verbatim>\<open>/me/following\<close>;
  \<^item> \<open>post tr handle\<close>: the unfollow request, with the status of its response and the
    headers as the server sent them;
  \<^item> \<open>verify tr\<close>: \<^verbatim>\<open>verify_session\<close>, \<open>Some msg\<close> when it raises \<^verbatim>\<open>SessionError(msg)\<close>;
  \<^item> \<open>set_order S\<close>: the order in which Python iterates over the set \<open>S\<close>.
\<close>

record world =
  harvest :: "event list \<Rightarrow> pystr \<Rightarrow> harvest_outcome"
  fetch :: "event list \<Rightarrow> pystr \<Rightarrow> int \<Rightarrow> fetch_outcome"
  ensure :: "event list \<Rightarrow> harvest_outcome"
  post :: "event list \<Rightarrow> pystr \<Rightarrow> post_outcome"
  verify :: "event list \<Rightarrow> pystr option"
  set_order :: "pystr fset \<Rightarrow> pystr list"

text \<open>Iterating over a set yields each of its elements once.\<close>

definition enumerates :: "world \<Rightarrow> pystr fset \<Rightarrow> bool" where
  "enumerates w S = (fset_of_list (set_order w S) = S \<and> distinct (set_order w S))"

text \<open>\<^verbatim>\<open>str(n)\<close> of an integer, for the messages built by f-strings.\<close>

function decimal :: "nat \<Rightarrow> pystr" where
  "decimal n = (if n < 10 then [48 + n] else decimal (n div 10) @ [48 + n mod 10])"
  by pat_completeness auto
termination
  by (relation "measure (\<lambda>n. n)") auto

declare decimal.simps [simp del]

definition str_int :: "int \<Rightarrow> pystr" where
  "str_int n = (if n < 0 then 45 # decimal (nat (- n)) else decimal (nat n))"

section \<open>Paginated collector: \<^verbatim>\<open>SunoBot.get_users\<close>\<close>

definition MAX_API_RETRIES :: nat where
  "MAX_API_RETRIES = 3"

text \<open>
  \<^verbatim>\<open>refresh_auth_headers\<close>: up to three navigations; a try that captures headers
  returns, a try that does not goes on at once, a try that raises sleeps 5 seconds
  first; after the third the function raises.
\<close>

function refresh_from :: "world \<Rightarrow> pystr \<Rightarrow> nat \<Rightarrow> event list \<Rightarrow> (exn + unit) \<times> event list" where
  "refresh_from w page_type retry tr =
     (if retry < 3 then
        (case harvest w tr page_type of
           Captured \<Rightarrow> (Inr (), tr @ [Harvest page_type])
         | NotCaptured \<Rightarrow> refresh_from w page_type (retry + 1) (tr @ [Harvest page_type])
         | NavError m \<Rightarrow> refresh_from w page_type (retry + 1) (tr @ [Harvest page_type, Sleep 5]))
      else (Inl (Exception (ascii ''Failed to refresh authentication headers after 3 attempts'')),
            tr))"
  by pat_completeness auto
termination
  by (relation "measure (\<lambda>(w, page_type, retry, tr). 3 - retry)") auto

declare refresh_from.simps [simp del]

definition refresh_auth_headers :: "world \<Rightarrow> pystr \<Rightarrow> event list \<Rightarrow> (exn + unit) \<times> event list" where
  "refresh_auth_headers w page_type tr = refresh_from w page_type 0 (tr @ [RefreshAuth])"

text \<open>
  The retry loop around the fetch of one page, from \<^verbatim>\<open>api_retry_count = c\<close>. It returns
  the response or the exception, the final \<^verbatim>\<open>api_retry_count\<close> and the trace. The counter
  is incremented in the handler before the error is classified; the test for 502 comes
  first. The loop is left without a response only with the counter at
  \<^verbatim>\<open>MAX_API_RETRIES\<close>, where the source raises.
\<close>

definition status_502 :: "pystr \<Rightarrow> bool" where
  "status_502 error_msg = sublist (ascii ''HTTP error! status: 502'') error_msg"

definition status_401 :: "pystr \<Rightarrow> bool" where
  "status_401 error_msg = sublist (ascii ''HTTP error! status: 401'') error_msg"

function fetch_from ::
  "world \<Rightarrow> pystr \<Rightarrow> int \<Rightarrow> nat \<Rightarrow> event list \<Rightarrow> (exn + json) \<times> nat \<times> event list" where
  "fetch_from w page_type current_page c tr =
     (if c < MAX_API_RETRIES then
        (case fetch w tr page_type current_page of
           Returned response_data \<Rightarrow> (Inr response_data, c, tr @ [Request page_type current_page])
         | Thrown error_msg \<Rightarrow>
             (if status_502 error_msg then
                fetch_from w page_type current_page (c + 1)
                  (tr @ [Request page_type current_page, Sleep 5])
              else if status_401 error_msg then
                (case refresh_auth_headers w page_type (tr @ [Request page_type current_page]) of
                   (Inr u, tr') \<Rightarrow> fetch_from w page_type current_page (c + 1) tr'
                 | (Inl e, tr') \<Rightarrow> (Inl e, c + 1, tr'))
              else (Inl (EngineError error_msg), c + 1, tr @ [Request page_type current_page])))
      else
        (Inl (Exception (ascii ''Failed to fetch page '' @ str_int current_page
                @ ascii '' after '' @ str_int (int MAX_API_RETRIES) @ ascii '' retries'')),
         c, tr))"
  by pat_completeness auto
termination
  by (relation "measure (\<lambda>(w, page_type, current_page, c, tr). MAX_API_RETRIES - c)") auto

declare fetch_from.simps [simp del]

definition fetch_page ::
  "world \<Rightarrow> pystr \<Rightarrow> int \<Rightarrow> event list \<Rightarrow> (exn + json) \<times> nat \<times> event list" where
  "fetch_page w page_type current_page tr = fetch_from w page_type current_page 0 tr"

text \<open>
  \<^verbatim>\<open>-(-total_profiles // 20)\<close> on the value under \<^verbatim>\<open>num_total_profiles\<close>: Python's floor
  division; a \<^verbatim>\<open>bool\<close> counts as 0 or 1, and the other values raise \<^verbatim>\<open>TypeError\<close>.
\<close>

fun total_pages_of :: "json \<Rightarrow> exn + int" where
  "total_pages_of (JInt total_profiles) = Inr (- ((- total_profiles) div 20))"
| "total_pages_of (JBool b) = Inr (- ((- (if b then 1 else 0)) div 20))"
| "total_pages_of v = Inl TypeError"

text \<open>\<^verbatim>\<open>total_pages or 1\<close>, the bound of the page loop.\<close>

fun page_bound :: "int option \<Rightarrow> int" where
  "page_bound None = 1"
| "page_bound (Some n) = (if n = 0 then 1 else n)"

text \<open>
  The loop over \<^verbatim>\<open>response_data['profiles']\<close>, for whatever value is there: iterating
  (\<open>iterate\<close>), \<^verbatim>\<open>'handle' in profile\<close> (\<open>has_handle_key\<close>), \<^verbatim>\<open>profile['handle']\<close>
  (\<open>subscript_handle\<close>) and \<^verbatim>\<open>.replace('@', '').strip()\<close> on the value each raise on
  the objects that do not support them.
\<close>

fun iterate :: "json \<Rightarrow> exn + json list" where
  "iterate (JArr xs) = Inr xs"
| "iterate (JObj kvs) = Inr (map (\<lambda>kv. JStr (fst kv)) kvs)"
| "iterate (JStr s) = Inr (map (\<lambda>c. JStr [c]) s)"
| "iterate v = Inl TypeError"

fun has_handle_key :: "json \<Rightarrow> exn + bool" where
  "has_handle_key (JObj kvs) = Inr (map_of kvs (ascii ''handle'') \<noteq> None)"
| "has_handle_key (JStr s) = Inr (sublist (ascii ''handle'') s)"
| "has_handle_key (JArr xs) = Inr (JStr (ascii ''handle'') \<in> set xs)"
| "has_handle_key v = Inl TypeError"

fun subscript_handle :: "json \<Rightarrow> exn + json" where
  "subscript_handle (JObj kvs) =
     (case map_of kvs (ascii ''handle'') of Some v \<Rightarrow> Inr v | None \<Rightarrow> Inl KeyError)"
| "subscript_handle v = Inl TypeError"

definition add_profile :: "unicode \<Rightarrow> json \<Rightarrow> pystr fset \<Rightarrow> exn + pystr fset" where
  "add_profile U profile users =
     (case has_handle_key profile of
        Inl e \<Rightarrow> Inl e
      | Inr False \<Rightarrow> Inr users
      | Inr True \<Rightarrow>
          (case subscript_handle profile of
             Inl e \<Rightarrow> Inl e
           | Inr (JStr s) \<Rightarrow>
               (let cleaned_username = strip U (replace_at s)
                in if validate_username U (JStr cleaned_username)
                   then Inr (finsert cleaned_username users)
                   else Inr users)
           | Inr v \<Rightarrow> Inl AttributeError))"

fun add_profiles :: "unicode \<Rightarrow> json list \<Rightarrow> pystr fset \<Rightarrow> exn + pystr fset" where
  "add_profiles U [] users = Inr users"
| "add_profiles U (profile # rest) users =
     (case add_profile U profile users of
        Inl e \<Rightarrow> Inl e
      | Inr users' \<Rightarrow> add_profiles U rest users')"

text \<open>
  The body of the page loop after the fetch: the check of the response's shape, the
  total page count (set once, from the first response that carries the field), and the
  profiles. It returns the new \<^verbatim>\<open>total_pages\<close> and \<^verbatim>\<open>users\<close>.
\<close>

definition process_page ::
  "unicode \<Rightarrow> json \<Rightarrow> int option \<Rightarrow> pystr fset \<Rightarrow> exn + (int option \<times> pystr fset)" where
  "process_page U response_data total_pages users =
     (if \<not> truthy response_data \<or> \<not> is_dict response_data
      then Inl (Exception (ascii ''Invalid API response format''))
      else case response_data of
        JObj kvs \<Rightarrow>
          (case (if total_pages = None
                 then (case map_of kvs (ascii ''num_total_profiles'') of
                         None \<Rightarrow> Inr None
                       | Some total_profiles \<Rightarrow>
                           (case total_pages_of total_profiles of
                              Inl e \<Rightarrow> Inl e
                            | Inr n \<Rightarrow> Inr (Some n)))
                 else Inr total_pages) of
             Inl e \<Rightarrow> Inl e
           | Inr total_pages' \<Rightarrow>
               (case map_of kvs (ascii ''profiles'') of
                  None \<Rightarrow> Inl (Exception (ascii ''No profiles key in response''))
                | Some profiles \<Rightarrow>
                    (case iterate profiles of
                       Inl e \<Rightarrow> Inl e
                     | Inr items \<Rightarrow>
                         (case add_profiles U items users of
                            Inl e \<Rightarrow> Inl e
                          | Inr users' \<Rightarrow> Inr (total_pages', users')))))
      | v \<Rightarrow> Inl (Exception (ascii ''Invalid API response format'')))"

lemma process_page_total_pages:
  "process_page U response_data (Some n) users = Inr (total_pages', users') \<Longrightarrow>
   total_pages' = Some n"
  by (auto simp: process_page_def split: if_splits json.splits sum.splits option.splits)

text \<open>
  The page loop \<^verbatim>\<open>while current_page <= (total_pages or 1)\<close>. It ends because
  \<^verbatim>\<open>total_pages\<close>, once set, does not change, and \<^verbatim>\<open>current_page\<close> grows.
\<close>

function pages_loop ::
  "unicode \<Rightarrow> world \<Rightarrow> pystr \<Rightarrow> pystr fset \<Rightarrow> int \<Rightarrow> int option \<Rightarrow> event list
   \<Rightarrow> (exn + pystr fset) \<times> event list" where
  "pages_loop U w page_type users current_page total_pages tr =
     (if current_page \<le> page_bound total_pages then
        (case fetch_page w page_type current_page tr of
           (Inl e, c, tr') \<Rightarrow> (Inl e, tr')
         | (Inr response_data, c, tr') \<Rightarrow>
             (case process_page U response_data total_pages users of
                Inl e \<Rightarrow> (Inl e, tr')
              | Inr (total_pages', users') \<Rightarrow>
                  (let new_users = int (fcard users') - int (fcard users)
                   in if new_users = 0 \<and> current_page > 1 then (Inr users', tr')
                      else pages_loop U w page_type users' (current_page + 1) total_pages'
                             (tr' @ [Sleep 1]))))
      else (Inr users, tr))"
  by pat_completeness auto
termination
proof (relation "inv_image (less_than <*lex*> less_than)
    (\<lambda>(U, w, page_type, users, current_page, total_pages, tr).
       (if total_pages = None then 1 else 0 :: nat,
        nat (page_bound total_pages + 1 - current_page)))", goal_cases)
  case 1
  show ?case by (intro wf_inv_image wf_lex_prod wf_less_than)
next
  case (2 U w page_type users current_page total_pages tr x1 x2 c tr' response_data r
      total_pages' users' new_users)
  show ?case
  proof (cases total_pages)
    case None
    with 2 show ?thesis by (cases total_pages') auto
  next
    case (Some n)
    with 2 have "total_pages' = Some n"
      using process_page_total_pages by metis
    with 2 Some show ?thesis by auto
  qed
qed

declare pages_loop.simps [simp del]

text \<open>
  \<^verbatim>\<open>get_users\<close>: the initial harvest, the page loop, and the list of \<^verbatim>\<open>User\<close> objects
  built from the set.
\<close>

definition get_users ::
  "unicode \<Rightarrow> world \<Rightarrow> pystr \<Rightarrow> event list \<Rightarrow> (exn + User list) \<times> event list" where
  "get_users U w page_type tr =
     (case harvest w tr page_type of
        NavError m \<Rightarrow> (Inl (EngineError m), tr @ [Harvest page_type])
      | NotCaptured \<Rightarrow>
          (Inl (Exception (ascii ''Failed to capture initial authentication headers'')),
           tr @ [Harvest page_type])
      | Captured \<Rightarrow>
          (case pages_loop U w page_type {||} 1 None (tr @ [Harvest page_type]) of
             (Inl e, tr') \<Rightarrow> (Inl e, tr')
           | (Inr users, tr') \<Rightarrow>
               (Inr (map (\<lambda>u. \<lparr>username = u\<rparr>) (set_order w users)), tr')))"

section \<open>Unfollow driver: \<^verbatim>\<open>SunoBot.unfollow_user\<close>\<close>

text \<open>
  The bot object, with the two pieces of outside state its methods change: the text of
  the progress file \<^verbatim>\<open>unfollow_progress.txt\<close> and the trace. An engine object (a page, a
  browser context, the engine itself) carries what its \<^verbatim>\<open>close()\<close> or \<^verbatim>\<open>stop()\<close> raises,
  if anything. The field \<open>ctx\<close> is \<^verbatim>\<open>self.context\<close>.
\<close>

datatype engine_object = EngineObject (on_close: "exn option")

record SunoBot =
  page :: "engine_object option"
  ctx :: "engine_object option"
  browser :: "engine_object option"
  playwright :: "engine_object option"
  processed_users :: "pystr fset"
  progress_file :: pystr
  trace :: "event list"

definition MAX_RETRIES :: nat where
  "MAX_RETRIES = 3"

text \<open>\<^verbatim>\<open>SunoBot.__init__\<close>, in a process that finds the progress file with the text \<open>file\<close>.\<close>

definition new_bot :: "pystr \<Rightarrow> SunoBot" where
  "new_bot file =
     \<lparr>page = None, ctx = None, browser = None, playwright = None,
      processed_users = {||}, progress_file = file, trace = []\<rparr>"

text \<open>
  \<^verbatim>\<open>int(s)\<close> on a string: surrounding whitespace is stripped, a sign may lead, and the
  rest is decimal digits, where single underscores may stand between two digits. The
  whitespace \<^verbatim>\<open>int\<close> strips is that of \<^verbatim>\<open>str.strip\<close> without the separators 28 to 31,
  and a string of more digits than the runtime's limit (4300 unless it is configured)
  raises \<^verbatim>\<open>ValueError\<close> like a malformed one.
\<close>

definition int_max_str_digits :: nat where
  "int_max_str_digits = 4300"

definition int_space :: "unicode \<Rightarrow> nat \<Rightarrow> bool" where
  "int_space U c = (if c < 128 then (9 \<le> c \<and> c \<le> 13) \<or> c = 32 else isspace_hi U c)"

definition digit_value :: "unicode \<Rightarrow> nat \<Rightarrow> nat option" where
  "digit_value U c =
     (if c < 128 then (if 48 \<le> c \<and> c \<le> 57 then Some (c - 48) else None) else digit_hi U c)"

fun digits_value :: "unicode \<Rightarrow> pystr \<Rightarrow> bool \<Rightarrow> nat \<Rightarrow> nat option" where
  "digits_value U [] after_digit acc = (if after_digit then Some acc else None)"
| "digits_value U (c # cs) after_digit acc =
     (if c = 95 then (if after_digit then digits_value U cs False acc else None)
      else case digit_value U c of
             None \<Rightarrow> None
           | Some d \<Rightarrow> digits_value U cs True (10 * acc + d))"

definition int_digits :: "unicode \<Rightarrow> pystr \<Rightarrow> nat option" where
  "int_digits U body =
     (case digits_value U body False 0 of
        None \<Rightarrow> None
      | Some n \<Rightarrow>
          if int_max_str_digits < length (filter (\<lambda>c. c \<noteq> 95) body) then None else Some n)"

definition py_int :: "unicode \<Rightarrow> pystr \<Rightarrow> exn + int" where
  "py_int U s =
     (case rev (dropWhile (int_space U) (rev (dropWhile (int_space U) s))) of
        [] \<Rightarrow> Inl ValueError
      | c # r \<Rightarrow>
          (if c = 45 then
             (case int_digits U r of None \<Rightarrow> Inl ValueError | Some n \<Rightarrow> Inr (- int n))
           else if c = 43 then
             (case int_digits U r of None \<Rightarrow> Inl ValueError | Some n \<Rightarrow> Inr (int n))
           else
             (case int_digits U (c # r) of
                None \<Rightarrow> Inl ValueError
              | Some n \<Rightarrow> Inr (int n))))"

text \<open>
  \<^verbatim>\<open>response.headers\<close>: the response object of the browser engine gives the headers
  with their names in lower case (header names are ASCII), whatever case the server
  sent. \<open>response_headers\<close> is that dictionary for the headers \<open>raw\<close> as sent, and
  \<open>retry_after_header\<close> is \<^verbatim>\<open>.get('Retry-After', '60')\<close> on a dictionary.
\<close>

definition lower_ascii :: "pystr \<Rightarrow> pystr" where
  "lower_ascii s = map (\<lambda>c. if 65 \<le> c \<and> c \<le> 90 then c + 32 else c) s"

definition response_headers :: "(pystr \<times> pystr) list \<Rightarrow> (pystr \<times> pystr) list" where
  "response_headers raw = map (\<lambda>kv. (lower_ascii (fst kv), snd kv)) raw"

definition retry_after_header :: "(pystr \<times> pystr) list \<Rightarrow> pystr" where
  "retry_after_header headers =
     (case map_of headers (ascii ''Retry-After'') of Some v \<Rightarrow> v | None \<Rightarrow> ascii ''60'')"

text \<open>
  \<^verbatim>\<open>ensure_auth_headers\<close>, the harvest before each unfollow attempt, and
  \<^verbatim>\<open>verify_session\<close>, which either returns or raises a \<^verbatim>\<open>SessionError\<close>.
\<close>

definition ensure_auth_headers :: "world \<Rightarrow> SunoBot \<Rightarrow> (exn + unit) \<times> SunoBot" where
  "ensure_auth_headers w b =
     (case ensure w (trace b) of
        Captured \<Rightarrow> (Inr (), b\<lparr>trace := trace b @ [EnsureAuth]\<rparr>)
      | NotCaptured \<Rightarrow>
          (Inl (SessionError (ascii ''Failed to capture auth headers'')),
           b\<lparr>trace := trace b @ [EnsureAuth]\<rparr>)
      | NavError m \<Rightarrow> (Inl (EngineError m), b\<lparr>trace := trace b @ [EnsureAuth]\<rparr>))"

definition verify_session :: "world \<Rightarrow> SunoBot \<Rightarrow> (exn + unit) \<times> SunoBot" where
  "verify_session w b =
     (case verify w (trace b) of
        None \<Rightarrow> (Inr (), b\<lparr>trace := trace b @ [VerifySession]\<rparr>)
      | Some m \<Rightarrow> (Inl (SessionError m), b\<lparr>trace := trace b @ [VerifySession]\<rparr>))"

text \<open>
  The \<^verbatim>\<open>try\<close> block of one attempt. It ends by \<^verbatim>\<open>return\<close>, by \<^verbatim>\<open>continue\<close> or by an
  exception. The body of an unexpected response is read for the log only and is left
  out.
\<close>

datatype step = Return bool | Continue

definition try_unfollow ::
  "unicode \<Rightarrow> world \<Rightarrow> pystr \<Rightarrow> nat \<Rightarrow> SunoBot \<Rightarrow> (exn + step) \<times> SunoBot" where
  "try_unfollow U w name attempt b =
     (case ensure_auth_headers w b of
        (Inl e, b1) \<Rightarrow> (Inl e, b1)
      | (Inr u, b1) \<Rightarrow>
          (case post w (trace b1) name of
             PostError m \<Rightarrow> (Inl (EngineError m), b1\<lparr>trace := trace b1 @ [Post name]\<rparr>)
           | Response status headers \<Rightarrow>
               (let b2 = b1\<lparr>trace := trace b1 @ [Post name]\<rparr>
                in if status = 204 then
                     (Inr (Return True),
                      b2\<lparr>processed_users := finsert name (processed_users b2),
                         trace := trace b2 @ [SleepUniform 30 60]\<rparr>)
                   else if status = 401 then
                     (case verify_session w b2 of
                        (Inl e, b3) \<Rightarrow> (Inl e, b3)
                      | (Inr u, b3) \<Rightarrow> (Inr Continue, b3))
                   else if status = 429 then
                     (case py_int U (retry_after_header (response_headers headers)) of
                        Inl e \<Rightarrow> (Inl e, b2)
                      | Inr retry_after \<Rightarrow>
                          (Inr Continue, b2\<lparr>trace := trace b2 @ [Sleep retry_after]\<rparr>))
                   else if attempt < MAX_RETRIES - 1 then
                     (Inr Continue, b2\<lparr>trace := trace b2 @ [SleepUniform 10 15]\<rparr>)
                   else (Inr (Return False), b2))))"

text \<open>
  The loop \<^verbatim>\<open>for attempt in range(self.MAX_RETRIES)\<close> with its two handlers, which do
  the same: wait 15 to 30 seconds and go on when attempts remain, return \<^verbatim>\<open>False\<close>
  otherwise. After the last attempt the function returns \<^verbatim>\<open>False\<close>.
\<close>

function unfollow_from ::
  "unicode \<Rightarrow> world \<Rightarrow> pystr \<Rightarrow> nat \<Rightarrow> SunoBot \<Rightarrow> bool \<times> SunoBot" where
  "unfollow_from U w name attempt b =
     (if attempt < MAX_RETRIES then
        (case try_unfollow U w name attempt b of
           (Inr (Return r), b') \<Rightarrow> (r, b')
         | (Inr Continue, b') \<Rightarrow> unfollow_from U w name (attempt + 1) b'
         | (Inl e, b') \<Rightarrow>
             (if is_session_error e then
                (if attempt < MAX_RETRIES - 1
                 then unfollow_from U w name (attempt + 1)
                        (b'\<lparr>trace := trace b' @ [SleepUniform 15 30]\<rparr>)
                 else (False, b'))
              else
                (if attempt < MAX_RETRIES - 1
                 then unfollow_from U w name (attempt + 1)
                        (b'\<lparr>trace := trace b' @ [SleepUniform 15 30]\<rparr>)
                 else (False, b'))))
      else (False, b))"
  by pat_completeness auto
termination
  by (relation "measure (\<lambda>(U, w, name, attempt, b). MAX_RETRIES - attempt)") auto

declare unfollow_from.simps [simp del]

definition unfollow_user :: "unicode \<Rightarrow> world \<Rightarrow> pystr \<Rightarrow> SunoBot \<Rightarrow> bool \<times> SunoBot" where
  "unfollow_user U w name b =
     (if name |\<in>| processed_users b then (True, b)
      else unfollow_from U w name 0 b)"

text \<open>
  \<^verbatim>\<open>handle_rate_limit\<close>, which no path of the program calls: it makes the same lookup,
  falls back to 60 seconds when \<^verbatim>\<open>int\<close> raises, sleeps, and raises \<^verbatim>\<open>RateLimitError\<close>.
\<close>

definition handle_rate_limit ::
  "unicode \<Rightarrow> (pystr \<times> pystr) list \<Rightarrow> SunoBot \<Rightarrow> exn \<times> SunoBot" where
  "handle_rate_limit U headers b =
     (let retry_after = (case py_int U (retry_after_header (response_headers headers)) of
                           Inl e \<Rightarrow> 60
                         | Inr n \<Rightarrow> n)
      in (RateLimitError (ascii ''Rate limited. Retry after '' @ str_int retry_after
                            @ ascii '' seconds''),
          b\<lparr>trace := trace b @ [Sleep retry_after]\<rparr>))"

section \<open>Batch orchestration: \<^verbatim>\<open>SunoBot.find_and_unfollow_nonreciprocal\<close>\<close>

text \<open>\<^verbatim>\<open>'\n'.join(xs)\<close>; 10 is the line feed.\<close>

fun join_lines :: "pystr list \<Rightarrow> pystr" where
  "join_lines [] = []"
| "join_lines [x] = x"
| "join_lines (x # y # r) = x @ [10] @ join_lines (y # r)"

definition chunk_size :: nat where
  "chunk_size = 5"

text \<open>The loop over one chunk: a successful unfollow appends a line feed and the name.\<close>

fun unfollow_chunk :: "unicode \<Rightarrow> world \<Rightarrow> pystr list \<Rightarrow> SunoBot \<Rightarrow> SunoBot" where
  "unfollow_chunk U w [] b = b"
| "unfollow_chunk U w (name # rest) b =
     (case unfollow_user U w name b of
        (True, b') \<Rightarrow>
          unfollow_chunk U w rest (b'\<lparr>progress_file := progress_file b' @ [10] @ name\<rparr>)
      | (False, b') \<Rightarrow> unfollow_chunk U w rest b')"

text \<open>
  \<^verbatim>\<open>for i in range(0, len(users_to_unfollow), chunk_size)\<close>, with the slice
  \<^verbatim>\<open>list(users_to_unfollow)[i:i + chunk_size]\<close> and the pause between two chunks.
\<close>

function unfollow_chunks :: "unicode \<Rightarrow> world \<Rightarrow> pystr fset \<Rightarrow> nat \<Rightarrow> SunoBot \<Rightarrow> SunoBot" where
  "unfollow_chunks U w targets i b =
     (if i < fcard targets then
        (let chunk = take chunk_size (drop i (set_order w targets));
             b' = unfollow_chunk U w chunk b;
             b'' = (if i + chunk_size < fcard targets
                    then b'\<lparr>trace := trace b' @ [SleepUniform 60 120]\<rparr>
                    else b')
         in unfollow_chunks U w targets (i + chunk_size) b'')
      else b)"
  by pat_completeness auto
termination
  by (relation "measure (\<lambda>(U, w, targets, i, b). fcard targets - i)")
     (auto simp: chunk_size_def)

declare unfollow_chunks.simps [simp del]

text \<open>
  The whole method: the two collection passes, the reconciler, the progress file opened
  for writing (its old text is lost) and filled with the processed set of the bot, and
  the chunks. An exception of a collection pass is raised again; \<^verbatim>\<open>unfollow_user\<close>
  raises none.
\<close>

definition find_and_unfollow_nonreciprocal ::
  "unicode \<Rightarrow> world \<Rightarrow> SunoBot \<Rightarrow> exn option \<times> SunoBot" where
  "find_and_unfollow_nonreciprocal U w b =
     (case get_users U w (ascii ''following'') (trace b) of
        (Inl e, tr1) \<Rightarrow> (Some e, b\<lparr>trace := tr1\<rparr>)
      | (Inr following, tr1) \<Rightarrow>
          (case get_users U w (ascii ''followers'') tr1 of
             (Inl e, tr2) \<Rightarrow> (Some e, b\<lparr>trace := tr2\<rparr>)
           | (Inr followers, tr2) \<Rightarrow>
               (let targets = users_to_unfollow following followers;
                    b1 = b\<lparr>trace := tr2,
                           progress_file := join_lines (set_order w (processed_users b))\<rparr>
                in (None, unfollow_chunks U w targets 0 b1))))"

section \<open>Teardown: \<^verbatim>\<open>SunoBot.cleanup\<close>\<close>

text \<open>
  The \<^verbatim>\<open>try\<close> block of \<^verbatim>\<open>cleanup\<close>. The page and the context are closed inside a
  \<^verbatim>\<open>try\<close> of their own whose handler passes, and their fields are reset after it;
  \<^verbatim>\<open>playwright.stop()\<close> has no such handler, so what it raises leaves the block before
  the field is reset.
\<close>

definition cleanup_try :: "SunoBot \<Rightarrow> exn option \<times> SunoBot" where
  "cleanup_try b =
     (let b1 = (case page b of
                  None \<Rightarrow> b
                | Some obj \<Rightarrow>
                    (case on_close obj of
                       Some e \<Rightarrow> b\<lparr>page := None, trace := trace b @ [ClosePage]\<rparr>
                     | None \<Rightarrow> b\<lparr>page := None, trace := trace b @ [ClosePage]\<rparr>));
          b2 = (case ctx b1 of
                  None \<Rightarrow> b1
                | Some obj \<Rightarrow>
                    (case on_close obj of
                       Some e \<Rightarrow> b1\<lparr>ctx := None, trace := trace b1 @ [CloseContext]\<rparr>
                     | None \<Rightarrow> b1\<lparr>ctx := None, trace := trace b1 @ [CloseContext]\<rparr>));
          b3 = (case browser b2 of
                  None \<Rightarrow> b2
                | Some obj \<Rightarrow> b2\<lparr>browser := None\<rparr>)
      in case playwright b3 of
           None \<Rightarrow> (None, b3)
         | Some obj \<Rightarrow>
             (case on_close obj of
                Some e \<Rightarrow> (Some e, b3\<lparr>trace := trace b3 @ [StopPlaywright]\<rparr>)
              | None \<Rightarrow> (None, b3\<lparr>playwright := None, trace := trace b3 @ [StopPlaywright]\<rparr>)))"

text \<open>\<^verbatim>\<open>cleanup\<close>: the handler \<^verbatim>\<open>except Exception\<close> around the block logs and returns.\<close>

definition cleanup :: "SunoBot \<Rightarrow> exn option \<times> SunoBot" where
  "cleanup b =
     (case cleanup_try b of
        (Some e, b') \<Rightarrow> (None, b')
      | (None, b') \<Rightarrow> (None, b'))"

text \<open>Whether \<^verbatim>\<open>playwright.stop()\<close> would raise in the state \<open>b\<close>.\<close>

definition stop_raises :: "SunoBot \<Rightarrow> bool" where
  "stop_raises b = (case playwright b of None \<Rightarrow> False | Some obj \<Rightarrow> on_close obj \<noteq> None)"

section \<open>Mock environments\<close>

text \<open>
  Concrete worlds on which the model is run. \<open>listing_body\<close> is a response of the listing
  API as the program expects it; \<open>quiet_world\<close> captures headers at once, lists nobody
  and answers every unfollow request with 204.
\<close>

definition listing_body :: "int \<Rightarrow> pystr list \<Rightarrow> json" where
  "listing_body num_total handles =
     JObj [(ascii ''num_total_profiles'', JInt num_total),
           (ascii ''profiles'', JArr (map (\<lambda>h. JObj [(ascii ''handle'', JStr h)]) handles))]"

definition quiet_world :: world where
  "quiet_world =
     \<lparr>harvest = (\<lambda>tr page_type. Captured),
      fetch = (\<lambda>tr page_type n. Returned (listing_body 0 [])),
      ensure = (\<lambda>tr. Captured),
      post = (\<lambda>tr name. Response 204 []),
      verify = (\<lambda>tr. None),
      set_order = sorted_list_of_fset\<rparr>"

text \<open>A world in which no harvest ever captures headers.\<close>

definition blind_world :: world where
  "blind_world =
     quiet_world\<lparr>harvest := (\<lambda>tr page_type. NotCaptured), ensure := (\<lambda>tr. NotCaptured)\<rparr>"

text \<open>
  Two bots before teardown: one whose engine fails to stop, and one with all four
  objects live, whose page fails to close.
\<close>

definition failing_stop_bot :: SunoBot where
  "failing_stop_bot =
     (new_bot [])\<lparr>playwright := Some (EngineObject (Some (EngineError (ascii ''stop failed''))))\<rparr>"

definition open_bot :: SunoBot where
  "open_bot =
     (new_bot [])
       \<lparr>page := Some (EngineObject (Some (EngineError (ascii ''page crashed'')))),
        ctx := Some (EngineObject None),
        browser := Some (EngineObject None),
        playwright := Some (EngineObject None)\<rparr>"

text \<open>The pages requested in a trace, in order.\<close>

fun requests :: "event list \<Rightarrow> int list" where
  "requests [] = []"
| "requests (Request page_type n # tr) = n # requests tr"
| "requests (e # tr) = requests tr"

text \<open>
  A listing of 40 profiles on two pages (the first page names two of them, the second
  one), behind an API that answers the first request for each page with 401 and every
  later one with the page.
\<close>

definition two_pages :: "int \<Rightarrow> json" where
  "two_pages n =
     listing_body 40 (if n = 1 then [ascii ''alice'', ascii ''@bob''] else [ascii ''carol''])"

definition expiring_world :: world where
  "expiring_world =
     quiet_world\<lparr>fetch := (\<lambda>tr page_type n.
        if Request page_type n \<in> set tr then Returned (two_pages n)
        else Thrown (ascii ''Error: HTTP error! status: 401''))\<rparr>"

text \<open>
  An API that answers the first request with 401, the next two with 502, and every
  later one with the page.
\<close>

definition exhausting_world :: world where
  "exhausting_world =
     quiet_world\<lparr>fetch := (\<lambda>tr page_type n.
        if requests tr = [] then Thrown (ascii ''Error: HTTP error! status: 401'')
        else if length (requests tr) < 3 then Thrown (ascii ''Error: HTTP error! status: 502'')
        else Returned (two_pages n))\<rparr>"

text \<open>
  A listing that announces 100 profiles, five pages, and names the same two on every
  page.
\<close>

definition repeating_world :: world where
  "repeating_world =
     quiet_world\<lparr>fetch := (\<lambda>tr page_type n.
        Returned (listing_body 100 [ascii ''alice'', ascii ''bob'']))\<rparr>"

text \<open>The name the collector keeps for a handle of the listing.\<close>

definition cleaned :: "unicode \<Rightarrow> pystr \<Rightarrow> pystr" where
  "cleaned U h = strip U (replace_at h)"

text \<open>
  A listing of 45 profiles, \<^verbatim>\<open>user0\<close> to \<^verbatim>\<open>user44\<close>, served 20 to the page; every
  response gives the total.
\<close>

definition numbered_handle :: "nat \<Rightarrow> pystr" where
  "numbered_handle k = ascii ''user'' @ decimal k"

definition page_of_45 :: "int \<Rightarrow> pystr list" where
  "page_of_45 n =
     (if n = 1 then map numbered_handle [0..<20]
      else if n = 2 then map numbered_handle [20..<40]
      else map numbered_handle [40..<45])"

definition paged_world :: world where
  "paged_world =
     quiet_world\<lparr>fetch := (\<lambda>tr page_type n. Returned (listing_body 45 (page_of_45 n)))\<rparr>"

text \<open>
  A world whose two listings are fixed, one page each, and the worlds whose unfollow
  request is answered with 429 and the headers \<open>hdrs\<close> (as the server sends them) the
  first time, and with 204 afterwards.
\<close>

definition listing_world :: "pystr list \<Rightarrow> pystr list \<Rightarrow> world" where
  "listing_world following followers =
     quiet_world\<lparr>fetch := (\<lambda>tr page_type n.
        if page_type = ascii ''following''
        then Returned (listing_body (int (length following)) following)
        else Returned (listing_body (int (length followers)) followers))\<rparr>"

definition throttled_once :: "(pystr \<times> pystr) list \<Rightarrow> world" where
  "throttled_once hdrs =
     quiet_world\<lparr>post := (\<lambda>tr name.
        if Post name \<in> set tr then Response 204 [] else Response 429 hdrs)\<rparr>"

text \<open>The text a run appends to the progress file for the names \<open>us\<close>, in that order.\<close>

definition ledger_lines :: "pystr list \<Rightarrow> pystr" where
  "ledger_lines us = concat (map (\<lambda>u. 10 # u) us)"

section \<open>Properties of the validator\<close>

lemma isspace_line_feed: "isspace U 10"
  by (simp add: isspace_def)

lemma strip_last_not_space:
  assumes "strip U s \<noteq> []"
  shows "\<not> isspace U (last (strip U s))"
proof -
  let ?d = "dropWhile (isspace U) (rev (dropWhile (isspace U) s))"
  from assms have ne: "?d \<noteq> []" by (simp add: strip_def)
  then have "\<not> isspace U (hd ?d)" by (rule hd_dropWhile)
  moreover from ne have "last (strip U s) = hd ?d" by (simp add: strip_def last_rev)
  ultimately show ?thesis by simp
qed

lemma re_match_handle_strip:
  "re_match_handle U (strip U s) = handle_pattern U (strip U s)"
  using strip_last_not_space [of U s] isspace_line_feed [of U]
  by (auto simp: re_match_handle_def)

lemma validate_username_str:
  "validate_username U (JStr s) = handle_pattern U (strip U (replace_at s))"
proof (cases "s = []")
  case True
  then show ?thesis
    by (simp add: validate_username_def handle_pattern_def strip_def replace_at_def)
next
  case False
  then show ?thesis
    by (simp add: validate_username_def re_match_handle_strip)
qed

lemma validate_username_non_str:
  "\<not> is_str v \<Longrightarrow> \<not> validate_username U v"
  by (simp add: validate_username_def)

text \<open>
  C8, as stated, fails: the source removes every \<^verbatim>\<open>@\<close> of the name, not a leading one
  only. \<^verbatim>\<open>validate_username("a@b")\<close> is true, although \<^verbatim>\<open>a@b\<close> with its leading marker
  and surrounding whitespace stripped is still \<^verbatim>\<open>a@b\<close>, which the pattern rejects.
\<close>

theorem validate_username_inner_at_counterexample:
  "validate_username ascii_tables (JStr (ascii ''a@b''))
   \<and> \<not> spec_validate ascii_tables (JStr (ascii ''a@b''))
   \<and> spec_cleaned ascii_tables (ascii ''a@b'') = ascii ''a@b''"
  by (simp add: validate_username_str spec_validate_def spec_cleaned_def handle_pattern_def
      handle_class_def word_char_def strip_def replace_at_def isspace_def ascii_def)

text \<open>
  C8, amended: \<^verbatim>\<open>validate_username\<close> is true exactly for a string which, with every
  \<^verbatim>\<open>@\<close> removed and surrounding whitespace stripped, consists of 2 to 30 word
  characters or hyphens. It is a total function into the booleans (no exception for an
  invalid input); \<^verbatim>\<open>@bob\<close> and \<^verbatim>\<open>bob\<close> are valid, and the empty string, \<^verbatim>\<open>a\<close>, 31 times
  \<^verbatim>\<open>x\<close> and the objects that are no strings are not.
\<close>

theorem validate_username_iff:
  "(validate_username U v \<longleftrightarrow>
      (\<exists>s. v = JStr s \<and> handle_pattern U (strip U (replace_at s))))
   \<and> validate_username U (JStr (ascii ''@bob''))
   \<and> validate_username U (JStr (ascii ''bob''))
   \<and> \<not> validate_username U (JStr [])
   \<and> \<not> validate_username U (JStr (ascii ''a''))
   \<and> \<not> validate_username U (JStr (replicate 31 (of_char CHR ''x'')))
   \<and> \<not> validate_username U JNull
   \<and> \<not> validate_username U (JInt n)"
proof -
  have "validate_username U v \<longleftrightarrow>
      (\<exists>s. v = JStr s \<and> handle_pattern U (strip U (replace_at s)))"
  proof (cases v)
    case (JStr s)
    then show ?thesis by (simp add: validate_username_str)
  qed (simp_all add: validate_username_non_str)
  moreover have "validate_username U (JStr (ascii ''@bob''))"
    by (simp add: validate_username_str handle_pattern_def handle_class_def word_char_def
        strip_def replace_at_def isspace_def ascii_def)
  moreover have "validate_username U (JStr (ascii ''bob''))"
    by (simp add: validate_username_str handle_pattern_def handle_class_def word_char_def
        strip_def replace_at_def isspace_def ascii_def)
  moreover have "\<not> validate_username U (JStr [])"
    by (simp add: validate_username_def)
  moreover have "\<not> validate_username U (JStr (ascii ''a''))"
    by (simp add: validate_username_str handle_pattern_def strip_def replace_at_def
        isspace_def ascii_def)
  moreover have "\<not> validate_username U (JStr (replicate 31 (of_char CHR ''x'')))"
    by (simp add: validate_username_str handle_pattern_def strip_def replace_at_def
        isspace_def)
  ultimately show ?thesis
    by (simp add: validate_username_non_str)
qed

theorem validate_username_iff_witness:
  "validate_username ascii_tables (JStr (ascii '' @user-01 ''))
   \<and> handle_pattern ascii_tables (ascii ''user-01'')
   \<and> \<not> validate_username ascii_tables (JStr (ascii ''two words''))"
  using validate_username_iff [of ascii_tables "JStr (ascii '' @user-01 '')" 0]
    validate_username_iff [of ascii_tables "JStr (ascii ''two words'')" 0]
  by (simp add: handle_pattern_def handle_class_def word_char_def strip_def replace_at_def
      isspace_def ascii_def)

section \<open>Properties of the reconciler\<close>

text \<open>
  C9: the reconciler is the set difference of the two sets of user names, a total
  function of its two arguments with no effect: a name is a target exactly when it is
  followed and is no follower. Reconciling a list with itself gives the empty set, with
  no followers it gives all the names followed, and with nobody followed it gives the
  empty set.
\<close>

theorem users_to_unfollow_difference:
  "(u |\<in>| users_to_unfollow following followers \<longleftrightarrow>
      u |\<in>| usernames following \<and> u |\<notin>| usernames followers)
   \<and> users_to_unfollow following followers = usernames following |-| usernames followers
   \<and> users_to_unfollow following following = {||}
   \<and> users_to_unfollow following [] = usernames following
   \<and> users_to_unfollow [] followers = {||}"
  by (simp add: users_to_unfollow_def usernames_def)

theorem users_to_unfollow_difference_witness:
  "users_to_unfollow
     [\<lparr>username = ascii ''aa''\<rparr>, \<lparr>username = ascii ''bb''\<rparr>, \<lparr>username = ascii ''cc''\<rparr>]
     [\<lparr>username = ascii ''bb''\<rparr>]
   = {|ascii ''aa'', ascii ''cc''|}"
proof -
  have "users_to_unfollow
     [\<lparr>username = ascii ''aa''\<rparr>, \<lparr>username = ascii ''bb''\<rparr>, \<lparr>username = ascii ''cc''\<rparr>]
     [\<lparr>username = ascii ''bb''\<rparr>]
    = usernames [\<lparr>username = ascii ''aa''\<rparr>, \<lparr>username = ascii ''bb''\<rparr>, \<lparr>username = ascii ''cc''\<rparr>]
      |-| usernames [\<lparr>username = ascii ''bb''\<rparr>]"
    by (rule users_to_unfollow_difference [THEN conjunct2, THEN conjunct1])
  also have "\<dots> = {|ascii ''aa'', ascii ''cc''|}"
    by (auto simp: usernames_def ascii_def)
  finally show ?thesis .
qed

section \<open>Properties of the teardown\<close>

lemma cleanup_snd: "snd (cleanup b) = snd (cleanup_try b)"
  by (cases "cleanup_try b"; cases "fst (cleanup_try b)") (auto simp: cleanup_def)

lemma cleanup_fst: "fst (cleanup b) = None"
  by (cases "cleanup_try b"; cases "fst (cleanup_try b)") (auto simp: cleanup_def)

lemma case_option_same: "(case x of None \<Rightarrow> a | Some e \<Rightarrow> a) = a"
  by (cases x) simp_all

lemma cleanup_try_page: "page (snd (cleanup_try b)) = None"
  by (cases "page b"; cases "ctx b"; cases "browser b"; cases "playwright b")
     (simp_all add: cleanup_try_def case_option_same Let_def split: option.splits)

lemma cleanup_try_ctx: "ctx (snd (cleanup_try b)) = None"
  by (cases "page b"; cases "ctx b"; cases "browser b"; cases "playwright b")
     (simp_all add: cleanup_try_def case_option_same Let_def split: option.splits)

lemma cleanup_try_browser: "browser (snd (cleanup_try b)) = None"
  by (cases "page b"; cases "ctx b"; cases "browser b"; cases "playwright b")
     (simp_all add: cleanup_try_def case_option_same Let_def split: option.splits)

lemma cleanup_try_playwright:
  "\<not> stop_raises b \<Longrightarrow> playwright (snd (cleanup_try b)) = None"
  by (cases "page b"; cases "ctx b"; cases "browser b"; cases "playwright b")
     (simp_all add: cleanup_try_def stop_raises_def case_option_same Let_def split: option.splits)

lemma cleanup_try_nothing:
  "page b = None \<Longrightarrow> ctx b = None \<Longrightarrow> browser b = None \<Longrightarrow> playwright b = None \<Longrightarrow>
   cleanup_try b = (None, b)"
  by (simp add: cleanup_try_def)

lemma cleanup_nothing:
  "page b = None \<Longrightarrow> ctx b = None \<Longrightarrow> browser b = None \<Longrightarrow> playwright b = None \<Longrightarrow>
   cleanup b = (None, b)"
  by (simp add: cleanup_def cleanup_try_nothing)

text \<open>
  C10 says that one call of \<^verbatim>\<open>cleanup\<close> leaves \<^verbatim>\<open>page\<close>, \<^verbatim>\<open>context\<close> and \<^verbatim>\<open>playwright\<close>
  set to \<^verbatim>\<open>None\<close> and that a second call is a no-op. The program misses this when
  \<^verbatim>\<open>playwright.stop()\<close> raises: the call has no handler of its own, as the two
  \<^verbatim>\<open>close()\<close> calls have, so the exception leaves the \<^verbatim>\<open>try\<close> block before
  \<^verbatim>\<open>self.playwright = None\<close>. On a bot whose engine fails to stop, the field stays set
  after the first call, and the second call calls \<^verbatim>\<open>stop()\<close> again.
\<close>

theorem cleanup_stop_raises_keeps_playwright:
  "playwright (snd (cleanup failing_stop_bot)) \<noteq> None
   \<and> trace (snd (cleanup failing_stop_bot)) = [StopPlaywright]
   \<and> trace (snd (cleanup (snd (cleanup failing_stop_bot)))) = [StopPlaywright, StopPlaywright]"
  by code_simp

text \<open>
  The rest of the teardown holds in every state: \<^verbatim>\<open>cleanup\<close> raises nothing, and one
  call leaves \<^verbatim>\<open>page\<close>, \<^verbatim>\<open>context\<close> and \<^verbatim>\<open>browser\<close> set to \<^verbatim>\<open>None\<close>, whatever closing
  them raises. When \<^verbatim>\<open>playwright.stop()\<close> does not raise, \<^verbatim>\<open>playwright\<close> is \<^verbatim>\<open>None\<close> too,
  and a second call on that state changes nothing and calls nothing.
\<close>

theorem cleanup_never_raises:
  "fst (cleanup b) = None
   \<and> page (snd (cleanup b)) = None
   \<and> ctx (snd (cleanup b)) = None
   \<and> browser (snd (cleanup b)) = None
   \<and> (\<not> stop_raises b \<longrightarrow>
        playwright (snd (cleanup b)) = None
        \<and> cleanup (snd (cleanup b)) = (None, snd (cleanup b)))"
  by (simp add: cleanup_fst cleanup_snd cleanup_try_page cleanup_try_ctx cleanup_try_browser
      cleanup_try_playwright cleanup_nothing)

theorem cleanup_never_raises_witness:
  "\<not> stop_raises open_bot
   \<and> cleanup open_bot = (None, (new_bot [])\<lparr>trace := [ClosePage, CloseContext, StopPlaywright]\<rparr>)
   \<and> cleanup (snd (cleanup open_bot)) = (None, snd (cleanup open_bot))"
proof -
  have h: "\<not> stop_raises open_bot"
    by code_simp
  have e: "cleanup open_bot
      = (None, (new_bot [])\<lparr>trace := [ClosePage, CloseContext, StopPlaywright]\<rparr>)"
    by code_simp
  from h cleanup_never_raises [of open_bot]
  have "cleanup (snd (cleanup open_bot)) = (None, snd (cleanup open_bot))"
    by blast
  with h e show ?thesis by blast
qed

section \<open>Properties of the unfollow driver\<close>

text \<open>
  C5: for a handle that is in the processed set, \<^verbatim>\<open>unfollow_user\<close> returns \<^verbatim>\<open>True\<close> and
  leaves the bot and the trace as they were: no harvest and no request. A second call
  does the same.
\<close>

theorem unfollow_user_processed:
  assumes "name |\<in>| processed_users b"
  shows "unfollow_user U w name b = (True, b)
     \<and> unfollow_user U w name (snd (unfollow_user U w name b)) = (True, b)
     \<and> trace (snd (unfollow_user U w name b)) = trace b"
  using assms by (simp add: unfollow_user_def)

theorem unfollow_user_processed_witness:
  "unfollow_user ascii_tables quiet_world (ascii ''bob'')
     ((new_bot [])\<lparr>processed_users := {|ascii ''bob''|}\<rparr>)
   = (True, (new_bot [])\<lparr>processed_users := {|ascii ''bob''|}\<rparr>)"
proof -
  have "ascii ''bob'' |\<in>| processed_users ((new_bot [])\<lparr>processed_users := {|ascii ''bob''|}\<rparr>)"
    by simp
  from unfollow_user_processed [OF this, of ascii_tables quiet_world]
  show ?thesis by blast
qed

section \<open>Properties of the harvest\<close>

lemma unfollow_from_harvest_missed:
  assumes "ensure w (trace b) = NotCaptured" and "attempt < MAX_RETRIES"
  shows "unfollow_from U w name attempt b =
     (if attempt < MAX_RETRIES - 1
      then unfollow_from U w name (attempt + 1)
             (b\<lparr>trace := trace b @ [EnsureAuth, SleepUniform 15 30]\<rparr>)
      else (False, b\<lparr>trace := trace b @ [EnsureAuth]\<rparr>))"
  using assms
  by (subst unfollow_from.simps) (simp add: try_unfollow_def ensure_auth_headers_def)

text \<open>
  C7, as stated, fails for the collector: when its initial harvest captures nothing,
  \<^verbatim>\<open>get_users\<close> raises a plain \<^verbatim>\<open>Exception\<close>, which is no \<^verbatim>\<open>SessionError\<close>.
\<close>

theorem harvest_timeout_counterexample:
  "get_users ascii_tables blind_world (ascii ''following'') []
     = (Inl (Exception (ascii ''Failed to capture initial authentication headers'')),
        [Harvest (ascii ''following'')])
   \<and> \<not> is_session_error (Exception (ascii ''Failed to capture initial authentication headers''))"
  by code_simp

text \<open>
  C7, amended: a harvest of the unfollow driver that captures nothing raises a
  \<^verbatim>\<open>SessionError\<close>, which ends the attempt and is caught by the attempt loop: the loop
  waits and goes on to the next attempt, or returns \<^verbatim>\<open>False\<close> after the last. An
  initial harvest of the collector that captures nothing raises a plain \<^verbatim>\<open>Exception\<close>,
  with which the collection ends.
\<close>

theorem harvest_timeout_errors:
  "(harvest w tr page_type = NotCaptured \<longrightarrow>
      get_users U w page_type tr
        = (Inl (Exception (ascii ''Failed to capture initial authentication headers'')),
           tr @ [Harvest page_type]))
   \<and> (ensure w (trace b) = NotCaptured \<longrightarrow>
      ensure_auth_headers w b
        = (Inl (SessionError (ascii ''Failed to capture auth headers'')),
           b\<lparr>trace := trace b @ [EnsureAuth]\<rparr>)
      \<and> try_unfollow U w name attempt b
        = (Inl (SessionError (ascii ''Failed to capture auth headers'')),
           b\<lparr>trace := trace b @ [EnsureAuth]\<rparr>)
      \<and> is_session_error (SessionError (ascii ''Failed to capture auth headers''))
      \<and> (attempt < MAX_RETRIES \<longrightarrow>
           unfollow_from U w name attempt b =
             (if attempt < MAX_RETRIES - 1
              then unfollow_from U w name (attempt + 1)
                     (b\<lparr>trace := trace b @ [EnsureAuth, SleepUniform 15 30]\<rparr>)
              else (False, b\<lparr>trace := trace b @ [EnsureAuth]\<rparr>))))"
proof (intro conjI impI)
  assume "attempt < MAX_RETRIES" and "ensure w (trace b) = NotCaptured"
  then show "unfollow_from U w name attempt b =
             (if attempt < MAX_RETRIES - 1
              then unfollow_from U w name (attempt + 1)
                     (b\<lparr>trace := trace b @ [EnsureAuth, SleepUniform 15 30]\<rparr>)
              else (False, b\<lparr>trace := trace b @ [EnsureAuth]\<rparr>))"
    by (simp only: unfollow_from_harvest_missed)
qed (simp_all add: get_users_def ensure_auth_headers_def try_unfollow_def)

theorem harvest_timeout_errors_witness:
  "get_users ascii_tables blind_world (ascii ''followers'') []
     = (Inl (Exception (ascii ''Failed to capture initial authentication headers'')),
        [Harvest (ascii ''followers'')])
   \<and> unfollow_user ascii_tables blind_world (ascii ''bob'') (new_bot [])
     = (False,
        (new_bot [])\<lparr>trace := [EnsureAuth, SleepUniform 15 30, EnsureAuth, SleepUniform 15 30,
                                EnsureAuth]\<rparr>)
   \<and> unfollow_from ascii_tables blind_world (ascii ''bob'') 2 (new_bot [])
     = (False, (new_bot [])\<lparr>trace := [EnsureAuth]\<rparr>)"
proof -
  have h1: "harvest blind_world [] (ascii ''followers'') = NotCaptured"
    by (simp add: blind_world_def)
  have h2: "ensure blind_world (trace (new_bot [])) = NotCaptured"
    by (simp add: blind_world_def)
  have h3: "(2::nat) < MAX_RETRIES"
    by (simp add: MAX_RETRIES_def)
  have "unfollow_user ascii_tables blind_world (ascii ''bob'') (new_bot [])
     = (False,
        (new_bot [])\<lparr>trace := [EnsureAuth, SleepUniform 15 30, EnsureAuth, SleepUniform 15 30,
                                EnsureAuth]\<rparr>)"
    by code_simp
  with h1 h2 h3 harvest_timeout_errors [where w = blind_world and tr = "[]"
      and page_type = "ascii ''followers''" and b = "new_bot []" and U = ascii_tables
      and attempt = 2 and name = "ascii ''bob''"]
  show ?thesis by (simp add: MAX_RETRIES_def new_bot_def)
qed

section \<open>Properties of the collector\<close>

lemma fetch_from_401:
  assumes "fetch w tr page_type n = Thrown msg" and "status_401 msg" and "\<not> status_502 msg"
    and "c < MAX_API_RETRIES"
    and "refresh_auth_headers w page_type (tr @ [Request page_type n]) = (Inr u, tr')"
  shows "fetch_from w page_type n c tr = fetch_from w page_type n (Suc c) tr'"
  using assms by (subst fetch_from.simps) simp

lemma fetch_from_returned:
  assumes "fetch w tr page_type n = Returned d" and "c < MAX_API_RETRIES"
  shows "fetch_from w page_type n c tr = (Inr d, c, tr @ [Request page_type n])"
  using assms by (subst fetch_from.simps) simp

lemma refresh_captured:
  assumes "harvest w (tr @ [RefreshAuth]) page_type = Captured"
  shows "refresh_auth_headers w page_type tr = (Inr (), tr @ [RefreshAuth, Harvest page_type])"
  using assms by (simp add: refresh_auth_headers_def refresh_from.simps)

lemma requests_append: "requests (xs @ ys) = requests xs @ requests ys"
  by (induction xs rule: requests.induct) simp_all

lemma refresh_from_requests:
  "requests (snd (refresh_from w page_type retry tr)) = requests tr"
proof (induction w page_type retry tr rule: refresh_from.induct)
  case (1 w page_type retry tr)
  show ?case
  proof (cases "retry < 3")
    case True
    with 1 show ?thesis
      by (subst refresh_from.simps)
         (cases "harvest w tr page_type"; simp add: requests_append)
  next
    case False
    then show ?thesis by (subst refresh_from.simps) simp
  qed
qed

lemma refresh_auth_headers_requests:
  "requests (snd (refresh_auth_headers w page_type tr)) = requests tr"
  by (simp add: refresh_auth_headers_def refresh_from_requests requests_append)

lemma fetch_from_requests:
  "set (requests (snd (snd (fetch_from w page_type n c tr)))) \<subseteq> insert n (set (requests tr))"
proof (induction w page_type n c tr rule: fetch_from.induct)
  case (1 w page_type n c tr)
  show ?case
  proof (cases "c < MAX_API_RETRIES")
    case False
    then show ?thesis by (subst fetch_from.simps) auto
  next
    case c: True
    show ?thesis
    proof (cases "fetch w tr page_type n")
      case (Returned d)
      with c show ?thesis
        by (subst fetch_from.simps) (auto simp: requests_append)
    next
      case (Thrown msg)
      show ?thesis
      proof (cases "status_502 msg")
        case True
        with c Thrown "1.IH"(1) show ?thesis
          by (subst fetch_from.simps) (auto simp: requests_append)
      next
        case no502: False
        show ?thesis
        proof (cases "status_401 msg")
          case False
          with c Thrown no502 show ?thesis
            by (subst fetch_from.simps) (auto simp: requests_append)
        next
          case True
          obtain r tr' where r: "refresh_auth_headers w page_type (tr @ [Request page_type n]) = (r, tr')"
            by (cases "refresh_auth_headers w page_type (tr @ [Request page_type n])")
          then have tr': "requests tr' = requests tr @ [n]"
            using refresh_auth_headers_requests [of w page_type "tr @ [Request page_type n]"]
            by (simp add: requests_append)
          show ?thesis
          proof (cases r)
            case (Inl e)
            with c Thrown no502 True r tr' show ?thesis
              by (subst fetch_from.simps) auto
          next
            case (Inr u)
            with c Thrown no502 True r have
              "set (requests (snd (snd (fetch_from w page_type n (c + 1) tr'))))
                 \<subseteq> insert n (set (requests tr'))"
              using "1.IH"(2) by simp
            with c Thrown no502 True r Inr tr' show ?thesis
              by (subst fetch_from.simps) auto
          qed
        qed
      qed
    qed
  qed
qed

lemma fetch_page_requests:
  "fetch_page w page_type n tr = (r, c, tr') \<Longrightarrow>
   set (requests tr') \<subseteq> insert n (set (requests tr))"
  using fetch_from_requests [of w page_type n 0 tr] by (simp add: fetch_page_def)

text \<open>
  C2, as stated, fails: the handler increments \<^verbatim>\<open>api_retry_count\<close> before it looks at
  the error, so a 401 uses up one of the three attempts of the page like a 502 does.
  After one 401 and two 502 errors the collector gives up on page 1 with the counter at
  3, although the next request would have been answered.
\<close>

theorem fetch_401_budget_counterexample:
  "fetch_page exhausting_world (ascii ''following'') 1 [Harvest (ascii ''following'')]
     = (Inl (Exception (ascii ''Failed to fetch page 1 after 3 retries'')), 3,
        [Harvest (ascii ''following''),
         Request (ascii ''following'') 1, RefreshAuth, Harvest (ascii ''following''),
         Request (ascii ''following'') 1, Sleep 5,
         Request (ascii ''following'') 1, Sleep 5])
   \<and> fetch exhausting_world
        [Harvest (ascii ''following''),
         Request (ascii ''following'') 1, RefreshAuth, Harvest (ascii ''following''),
         Request (ascii ''following'') 1, Sleep 5,
         Request (ascii ''following'') 1, Sleep 5] (ascii ''following'') 1
     = Returned (two_pages 1)"
  by code_simp

text \<open>
  C2, amended: a page fetch that fails with a 401 error (and no 502 in its message)
  refreshes the headers and, when the refresh succeeds, tries the same page again with
  the attempt counted: the loop goes on from \<^verbatim>\<open>api_retry_count + 1\<close>. In particular, when
  the first request for a page is answered with 401, the refresh captures headers at
  once and the second request returns the page, the fetch succeeds after exactly one
  refresh, with one of the three attempts used.
\<close>

theorem fetch_401_consumes_attempt:
  assumes "fetch w tr page_type n = Thrown msg" and "status_401 msg" and "\<not> status_502 msg"
    and "c < MAX_API_RETRIES"
  shows "(refresh_auth_headers w page_type (tr @ [Request page_type n]) = (Inr (), tr') \<longrightarrow>
            fetch_from w page_type n c tr = fetch_from w page_type n (c + 1) tr')
       \<and> (harvest w (tr @ [Request page_type n, RefreshAuth]) page_type = Captured \<longrightarrow>
          fetch w (tr @ [Request page_type n, RefreshAuth, Harvest page_type]) page_type n
            = Returned d \<longrightarrow>
          fetch_page w page_type n tr
            = (Inr d, 1, tr @ [Request page_type n, RefreshAuth, Harvest page_type,
                               Request page_type n]))"
proof (intro conjI impI)
  assume "refresh_auth_headers w page_type (tr @ [Request page_type n]) = (Inr (), tr')"
  with assms show "fetch_from w page_type n c tr = fetch_from w page_type n (c + 1) tr'"
    by (simp add: fetch_from_401)
next
  assume h: "harvest w (tr @ [Request page_type n, RefreshAuth]) page_type = Captured"
    and f: "fetch w (tr @ [Request page_type n, RefreshAuth, Harvest page_type]) page_type n
            = Returned d"
  have "0 < MAX_API_RETRIES" by (simp add: MAX_API_RETRIES_def)
  moreover from h have "refresh_auth_headers w page_type (tr @ [Request page_type n])
      = (Inr (), tr @ [Request page_type n, RefreshAuth, Harvest page_type])"
    using refresh_captured [of w "tr @ [Request page_type n]" page_type] by simp
  ultimately have "fetch_page w page_type n tr = fetch_from w page_type n 1
      (tr @ [Request page_type n, RefreshAuth, Harvest page_type])"
    using assms(1-3) by (simp add: fetch_page_def fetch_from_401)
  also have "\<dots> = (Inr d, 1, tr @ [Request page_type n, RefreshAuth, Harvest page_type,
                               Request page_type n])"
    using f by (simp add: fetch_from_returned MAX_API_RETRIES_def)
  finally show "fetch_page w page_type n tr
     = (Inr d, 1, tr @ [Request page_type n, RefreshAuth, Harvest page_type, Request page_type n])" .
qed

theorem fetch_401_consumes_attempt_witness:
  "fetch_page expiring_world (ascii ''following'') 1 [Harvest (ascii ''following'')]
     = (Inr (two_pages 1), 1,
        [Harvest (ascii ''following''),
         Request (ascii ''following'') 1, RefreshAuth, Harvest (ascii ''following''),
         Request (ascii ''following'') 1])
   \<and> fetch_from expiring_world (ascii ''following'') 1 0 [Harvest (ascii ''following'')]
     = fetch_from expiring_world (ascii ''following'') 1 (0 + 1)
         [Harvest (ascii ''following''),
          Request (ascii ''following'') 1, RefreshAuth, Harvest (ascii ''following'')]
   \<and> get_users ascii_tables expiring_world (ascii ''following'') []
     = (Inr [\<lparr>username = ascii ''alice''\<rparr>, \<lparr>username = ascii ''bob''\<rparr>,
             \<lparr>username = ascii ''carol''\<rparr>],
        [Harvest (ascii ''following''),
         Request (ascii ''following'') 1, RefreshAuth, Harvest (ascii ''following''),
         Request (ascii ''following'') 1, Sleep 1,
         Request (ascii ''following'') 2, RefreshAuth, Harvest (ascii ''following''),
         Request (ascii ''following'') 2, Sleep 1])"
proof -
  let ?pt = "ascii ''following''"
  let ?msg = "ascii ''Error: HTTP error! status: 401''"
  have f: "fetch expiring_world [Harvest ?pt] ?pt 1 = Thrown ?msg"
    by code_simp
  have s1: "status_401 ?msg" by code_simp
  have s2: "\<not> status_502 ?msg" by code_simp
  have c: "0 < MAX_API_RETRIES" by code_simp
  have r: "refresh_auth_headers expiring_world ?pt ([Harvest ?pt] @ [Request ?pt 1])
      = (Inr (), [Harvest ?pt, Request ?pt 1, RefreshAuth, Harvest ?pt])"
    by code_simp
  have h: "harvest expiring_world ([Harvest ?pt] @ [Request ?pt 1, RefreshAuth]) ?pt = Captured"
    by code_simp
  have g: "fetch expiring_world ([Harvest ?pt] @ [Request ?pt 1, RefreshAuth, Harvest ?pt]) ?pt 1
      = Returned (two_pages 1)"
    by code_simp
  have run: "get_users ascii_tables expiring_world ?pt []
     = (Inr [\<lparr>username = ascii ''alice''\<rparr>, \<lparr>username = ascii ''bob''\<rparr>,
             \<lparr>username = ascii ''carol''\<rparr>],
        [Harvest ?pt, Request ?pt 1, RefreshAuth, Harvest ?pt, Request ?pt 1, Sleep 1,
         Request ?pt 2, RefreshAuth, Harvest ?pt, Request ?pt 2, Sleep 1])"
    by code_simp
  from fetch_401_consumes_attempt [OF f s1 s2 c,
      of "[Harvest ?pt, Request ?pt 1, RefreshAuth, Harvest ?pt]" "two_pages 1"] r h g run
  show ?thesis by simp
qed

text \<open>
  C6: in an iteration of the page loop for a page after the first, when the fetch
  succeeds and the page adds no name to the set, the loop ends there with the set it
  has, whatever the total page count is; no page other than the current one was
  requested in that iteration, and none is requested after it.
\<close>

theorem pages_loop_early_stop:
  assumes "1 < current_page" and "current_page \<le> page_bound total_pages"
    and "fetch_page w page_type current_page tr = (Inr response_data, c, tr')"
    and "process_page U response_data total_pages users = Inr (total_pages', users')"
    and "users' = users"
  shows "pages_loop U w page_type users current_page total_pages tr = (Inr users, tr')
       \<and> set (requests tr') \<subseteq> insert current_page (set (requests tr))"
proof
  from assms show "pages_loop U w page_type users current_page total_pages tr = (Inr users, tr')"
    by (subst pages_loop.simps) simp
  from assms(3) show "set (requests tr') \<subseteq> insert current_page (set (requests tr))"
    by (rule fetch_page_requests)
qed

theorem pages_loop_early_stop_witness:
  "pages_loop ascii_tables repeating_world (ascii ''following'')
       {|ascii ''alice'', ascii ''bob''|} 2 (Some 5)
       [Harvest (ascii ''following''), Request (ascii ''following'') 1, Sleep 1]
     = (Inr {|ascii ''alice'', ascii ''bob''|},
        [Harvest (ascii ''following''), Request (ascii ''following'') 1, Sleep 1,
         Request (ascii ''following'') 2])
   \<and> requests (snd (get_users ascii_tables repeating_world (ascii ''following'') [])) = [1, 2]"
proof -
  let ?pt = "ascii ''following''"
  let ?users = "{|ascii ''alice'', ascii ''bob''|}"
  let ?tr = "[Harvest ?pt, Request ?pt 1, Sleep 1]"
  have a: "(1::int) < 2" by simp
  have b: "(2::int) \<le> page_bound (Some 5)" by simp
  have f: "fetch_page repeating_world ?pt 2 ?tr
      = (Inr (listing_body 100 [ascii ''alice'', ascii ''bob'']), 0, ?tr @ [Request ?pt 2])"
    by code_simp
  have p: "process_page ascii_tables (listing_body 100 [ascii ''alice'', ascii ''bob''])
      (Some 5) ?users = Inr (Some 5, ?users)"
    by code_simp
  have run: "requests (snd (get_users ascii_tables repeating_world ?pt [])) = [1, 2]"
    by code_simp
  from pages_loop_early_stop [OF a b f p refl] run
  show ?thesis by simp
qed

section \<open>Properties of a collection pass\<close>

lemma fetch_page_returned:
  assumes "fetch w tr page_type n = Returned d"
  shows "fetch_page w page_type n tr = (Inr d, 0, tr @ [Request page_type n])"
  using assms by (simp add: fetch_page_def fetch_from_returned MAX_API_RETRIES_def)

lemma add_profile_handle:
  "add_profile U (JObj [(ascii ''handle'', JStr h)]) users =
     Inr (if validate_username U (JStr (cleaned U h)) then finsert (cleaned U h) users else users)"
  by (simp add: add_profile_def cleaned_def)

lemma add_profiles_listing:
  "list_all (\<lambda>h. validate_username U (JStr (cleaned U h))) hs \<Longrightarrow>
   add_profiles U (map (\<lambda>h. JObj [(ascii ''handle'', JStr h)]) hs) users =
     Inr (fset_of_list (map (cleaned U) hs) |\<union>| users)"
proof (induction hs arbitrary: users)
  case Nil
  then show ?case by simp
next
  case (Cons h hs)
  then show ?case by (auto simp: add_profile_handle)
qed

lemma keys_differ: "ascii ''profiles'' \<noteq> ascii ''num_total_profiles''"
  by (simp add: ascii_def)

lemma process_page_listing:
  assumes "list_all (\<lambda>h. validate_username U (JStr (cleaned U h))) hs"
  shows "process_page U (listing_body t hs) total_pages users =
     Inr (case total_pages of None \<Rightarrow> Some (- ((- t) div 20)) | Some n \<Rightarrow> Some n,
          fset_of_list (map (cleaned U) hs) |\<union>| users)"
  using assms keys_differ
  by (cases total_pages) (simp_all add: process_page_def listing_body_def add_profiles_listing)

lemma fcard_fset_of_list: "distinct xs \<Longrightarrow> fcard (fset_of_list xs) = length xs"
  by (induction xs) (simp_all add: fcard_finsert_if fset_of_list_elem)

lemma pages_loop_step:
  assumes "current_page \<le> page_bound total_pages"
    and "fetch w tr page_type current_page = Returned (listing_body t hs)"
    and "list_all (\<lambda>h. validate_username U (JStr (cleaned U h))) hs"
    and "current_page = 1 \<or> fcard (fset_of_list (map (cleaned U) hs) |\<union>| users) \<noteq> fcard users"
  shows "pages_loop U w page_type users current_page total_pages tr =
     pages_loop U w page_type (fset_of_list (map (cleaned U) hs) |\<union>| users) (current_page + 1)
       (case total_pages of None \<Rightarrow> Some (- ((- t) div 20)) | Some n \<Rightarrow> Some n)
       (tr @ [Request page_type current_page, Sleep 1])"
  using assms
  by (subst pages_loop.simps) (auto simp: fetch_page_returned process_page_listing)

lemma pages_loop_done:
  "page_bound total_pages < current_page \<Longrightarrow>
   pages_loop U w page_type users current_page total_pages tr = (Inr users, tr)"
  by (subst pages_loop.simps) simp

lemma sorted_list_of_fset_enumerates:
  "set_order w = sorted_list_of_fset \<Longrightarrow> enumerates w S"
proof -
  assume o: "set_order w = sorted_list_of_fset"
  have "distinct (sorted_list_of_fset S)"
    by (simp add: sorted_list_of_fset.rep_eq)
  with o show ?thesis by (simp add: enumerates_def)
qed

text \<open>
  C1: when the initial harvest captures headers and the listing API answers the
  requests for the pages 1, 2 and 3 with 20, 20 and 5 handles, the first response
  giving \<^verbatim>\<open>num_total_profiles = 45\<close>, and the 45 handles are valid and stand for 45
  different names, then the collector computes 3 pages (the total count divided by 20
  and rounded up), requests exactly the pages 1, 2 and 3, once each, and returns the 45
  names, each once.
\<close>

theorem get_users_45_profiles:
  assumes h: "harvest w tr page_type = Captured"
    and f1: "\<And>tr'. fetch w tr' page_type 1 = Returned (listing_body 45 hs1)"
    and f2: "\<And>tr'. fetch w tr' page_type 2 = Returned (listing_body t2 hs2)"
    and f3: "\<And>tr'. fetch w tr' page_type 3 = Returned (listing_body t3 hs3)"
    and len: "length hs1 = 20" "length hs2 = 20" "length hs3 = 5"
    and valid: "list_all (\<lambda>h. validate_username U (JStr (cleaned U h))) (hs1 @ hs2 @ hs3)"
    and dist: "distinct (map (cleaned U) (hs1 @ hs2 @ hs3))"
    and S: "S = fset_of_list (map (cleaned U) (hs1 @ hs2 @ hs3))"
    and enum: "enumerates w S"
  shows "total_pages_of (JInt n) = Inr ((n + 19) div 20)
     \<and> total_pages_of (JInt 45) = Inr 3
     \<and> get_users U w page_type tr =
         (Inr (map (\<lambda>u. \<lparr>username = u\<rparr>) (set_order w S)),
          tr @ [Harvest page_type, Request page_type 1, Sleep 1, Request page_type 2, Sleep 1,
                Request page_type 3, Sleep 1])
     \<and> length (set_order w S) = 45
     \<and> distinct (set_order w S)
     \<and> fcard S = 45
     \<and> usernames (map (\<lambda>u. \<lparr>username = u\<rparr>) (set_order w S)) = S"
proof -
  let ?c = "cleaned U"
  let ?V1 = "fset_of_list (map ?c hs1)"
  let ?V2 = "fset_of_list (map ?c hs2)"
  let ?V3 = "fset_of_list (map ?c hs3)"
  let ?tr0 = "tr @ [Harvest page_type]"
  let ?tr1 = "?tr0 @ [Request page_type 1, Sleep 1]"
  let ?tr2 = "?tr1 @ [Request page_type 2, Sleep 1]"
  let ?tr3 = "?tr2 @ [Request page_type 3, Sleep 1]"
  from valid have v1: "list_all (\<lambda>h. validate_username U (JStr (?c h))) hs1"
    and v2: "list_all (\<lambda>h. validate_username U (JStr (?c h))) hs2"
    and v3: "list_all (\<lambda>h. validate_username U (JStr (?c h))) hs3"
    by simp_all
  have c1: "fcard (?V1 |\<union>| {||}) = 20"
    using dist len fcard_fset_of_list [of "map ?c hs1"] by simp
  have "distinct (map ?c (hs2 @ hs1))" using dist by auto
  then have "fcard (fset_of_list (map ?c (hs2 @ hs1))) = 40"
    using len fcard_fset_of_list [of "map ?c (hs2 @ hs1)"] by simp
  then have c2: "fcard (?V2 |\<union>| (?V1 |\<union>| {||})) = 40" by simp
  have "distinct (map ?c (hs3 @ hs2 @ hs1))" using dist by auto
  then have "fcard (fset_of_list (map ?c (hs3 @ hs2 @ hs1))) = 45"
    using len fcard_fset_of_list [of "map ?c (hs3 @ hs2 @ hs1)"] by simp
  then have c3: "fcard (?V3 |\<union>| (?V2 |\<union>| (?V1 |\<union>| {||}))) = 45" by simp
  have S3: "?V3 |\<union>| (?V2 |\<union>| (?V1 |\<union>| {||})) = S"
    unfolding S by auto
  have "pages_loop U w page_type {||} 1 None ?tr0
      = pages_loop U w page_type (?V1 |\<union>| {||}) (1 + 1) (Some 3) ?tr1"
    using pages_loop_step [of 1 None w ?tr0 page_type 45 hs1 U "{||}"] f1 v1 by simp
  also have "\<dots> = pages_loop U w page_type (?V2 |\<union>| (?V1 |\<union>| {||})) (2 + 1) (Some 3) ?tr2"
    using pages_loop_step [of 2 "Some 3" w ?tr1 page_type t2 hs2 U "?V1 |\<union>| {||}"] f2 v2 c1 c2
    by simp
  also have "\<dots> = pages_loop U w page_type (?V3 |\<union>| (?V2 |\<union>| (?V1 |\<union>| {||}))) (3 + 1)
      (Some 3) ?tr3"
    using pages_loop_step [of 3 "Some 3" w ?tr2 page_type t3 hs3 U "?V2 |\<union>| (?V1 |\<union>| {||})"]
      f3 v3 c2 c3
    by simp
  also have "\<dots> = (Inr S, ?tr3)"
    using pages_loop_done [of "Some 3" "3 + 1" U w page_type] S3 by simp
  finally have loop: "pages_loop U w page_type {||} 1 None ?tr0 = (Inr S, ?tr3)" .
  have run: "get_users U w page_type tr =
      (Inr (map (\<lambda>u. \<lparr>username = u\<rparr>) (set_order w S)), ?tr3)"
    using h loop by (simp add: get_users_def)
  have card: "fcard S = 45" using c3 S3 by simp
  from enum have e1: "fset_of_list (set_order w S) = S" and e2: "distinct (set_order w S)"
    by (simp_all add: enumerates_def)
  from e2 have "fcard (fset_of_list (set_order w S)) = length (set_order w S)"
    by (rule fcard_fset_of_list)
  with e1 card have l: "length (set_order w S) = 45" by simp
  have u: "usernames (map (\<lambda>u. \<lparr>username = u\<rparr>) (set_order w S)) = S"
    using e1 by (simp add: usernames_def comp_def)
  have t: "total_pages_of (JInt 45) = Inr 3" by simp
  have t': "total_pages_of (JInt n) = Inr ((n + 19) div 20)" by simp
  from t t' run l e2 card u show ?thesis by simp
qed

theorem get_users_45_profiles_witness:
  "get_users ascii_tables paged_world (ascii ''following'') [] =
     (Inr (map (\<lambda>u. \<lparr>username = u\<rparr>)
        (set_order paged_world
           (fset_of_list (map (cleaned ascii_tables) (page_of_45 1 @ page_of_45 2 @ page_of_45 3))))),
      [Harvest (ascii ''following''),
       Request (ascii ''following'') 1, Sleep 1,
       Request (ascii ''following'') 2, Sleep 1,
       Request (ascii ''following'') 3, Sleep 1])
   \<and> length (set_order paged_world
        (fset_of_list (map (cleaned ascii_tables) (page_of_45 1 @ page_of_45 2 @ page_of_45 3))))
     = 45"
proof -
  let ?pt = "ascii ''following''"
  let ?S = "fset_of_list (map (cleaned ascii_tables) (page_of_45 1 @ page_of_45 2 @ page_of_45 3))"
  have h: "harvest paged_world [] ?pt = Captured"
    by (simp add: paged_world_def quiet_world_def)
  have f1: "\<And>tr'. fetch paged_world tr' ?pt 1 = Returned (listing_body 45 (page_of_45 1))"
    by (simp add: paged_world_def quiet_world_def)
  have f2: "\<And>tr'. fetch paged_world tr' ?pt 2 = Returned (listing_body 45 (page_of_45 2))"
    by (simp add: paged_world_def quiet_world_def)
  have f3: "\<And>tr'. fetch paged_world tr' ?pt 3 = Returned (listing_body 45 (page_of_45 3))"
    by (simp add: paged_world_def quiet_world_def)
  have l1: "length (page_of_45 1) = 20" by (simp add: page_of_45_def)
  have l2: "length (page_of_45 2) = 20" by (simp add: page_of_45_def)
  have l3: "length (page_of_45 3) = 5" by (simp add: page_of_45_def)
  have v: "list_all (\<lambda>h. validate_username ascii_tables (JStr (cleaned ascii_tables h)))
      (page_of_45 1 @ page_of_45 2 @ page_of_45 3)"
    by code_simp
  have d: "distinct (map (cleaned ascii_tables) (page_of_45 1 @ page_of_45 2 @ page_of_45 3))"
    by code_simp
  have e: "enumerates paged_world ?S"
    by (rule sorted_list_of_fset_enumerates) (simp add: paged_world_def quiet_world_def)
  from get_users_45_profiles [OF h f1 f2 f3 l1 l2 l3 v d refl e]
  show ?thesis by simp
qed

section \<open>Properties of the batch and its progress file\<close>

lemma unfollow_user_204:
  assumes "\<And>tr. ensure w tr = Captured"
    and "\<And>tr name. \<exists>hdrs. post w tr name = Response 204 hdrs"
    and "name |\<notin>| processed_users b"
  shows "unfollow_user U w name b =
     (True, b\<lparr>processed_users := finsert name (processed_users b),
              trace := trace b @ [EnsureAuth, Post name, SleepUniform 30 60]\<rparr>)"
proof -
  obtain hdrs where p: "post w (trace b @ [EnsureAuth]) name = Response 204 hdrs"
    using assms(2) by blast
  have "try_unfollow U w name 0 b =
     (Inr (Return True), b\<lparr>processed_users := finsert name (processed_users b),
              trace := trace b @ [EnsureAuth, Post name, SleepUniform 30 60]\<rparr>)"
    using assms(1) p by (simp add: try_unfollow_def ensure_auth_headers_def)
  then show ?thesis
    using assms(3) by (simp add: unfollow_user_def unfollow_from.simps MAX_RETRIES_def)
qed

lemma unfollow_chunk_204:
  assumes "\<And>tr. ensure w tr = Captured"
    and "\<And>tr name. \<exists>hdrs. post w tr name = Response 204 hdrs"
  shows "distinct us \<Longrightarrow> fset_of_list us |\<inter>| processed_users b = {||} \<Longrightarrow>
     processed_users (unfollow_chunk U w us b) = processed_users b |\<union>| fset_of_list us
     \<and> progress_file (unfollow_chunk U w us b) = progress_file b @ ledger_lines us"
proof (induction us arbitrary: b)
  case Nil
  then show ?case by (simp add: ledger_lines_def)
next
  case (Cons u us)
  let ?b1 = "b\<lparr>processed_users := finsert u (processed_users b),
              trace := trace b @ [EnsureAuth, Post u, SleepUniform 30 60]\<rparr>"
  let ?b2 = "?b1\<lparr>progress_file := progress_file ?b1 @ [10] @ u\<rparr>"
  from Cons.prems have u: "u |\<notin>| processed_users b" by auto
  have step: "unfollow_user U w u b = (True, ?b1)"
    using assms u by (rule unfollow_user_204)
  from Cons.prems have d: "distinct us"
    and i: "fset_of_list us |\<inter>| processed_users ?b2 = {||}"
    by (auto simp: fset_of_list_elem)
  from Cons.IH [OF d i] step show ?case
    by (auto simp: ledger_lines_def)
qed

lemma ledger_lines_append: "ledger_lines (xs @ ys) = ledger_lines xs @ ledger_lines ys"
  by (simp add: ledger_lines_def)

lemma unfollow_chunks_204:
  assumes e: "\<And>tr. ensure w tr = Captured"
    and p: "\<And>tr name. \<exists>hdrs. post w tr name = Response 204 hdrs"
    and d: "distinct (set_order w targets)"
    and l: "length (set_order w targets) = fcard targets"
  shows "processed_users b = fset_of_list (take i (set_order w targets)) \<Longrightarrow>
     progress_file b = f0 @ ledger_lines (take i (set_order w targets)) \<Longrightarrow>
     processed_users (unfollow_chunks U w targets i b) = fset_of_list (set_order w targets)
     \<and> progress_file (unfollow_chunks U w targets i b) = f0 @ ledger_lines (set_order w targets)"
  using e p d l
proof (induction U w targets i b rule: unfollow_chunks.induct)
  case (1 U w targets i b)
  let ?L = "set_order w targets"
  note pu0 = "1.prems"(1) and pf0 = "1.prems"(2)
    and e = "1.prems"(3) and p = "1.prems"(4) and d = "1.prems"(5) and l = "1.prems"(6)
  show ?case
  proof (cases "i < fcard targets")
    case False
    with "1.prems" show ?thesis
      by (subst (1 2) unfollow_chunks.simps) simp
  next
    case True
    let ?chunk = "take chunk_size (drop i ?L)"
    let ?b' = "unfollow_chunk U w ?chunk b"
    let ?b'' = "if i + chunk_size < fcard targets
                then ?b'\<lparr>trace := trace ?b' @ [SleepUniform 60 120]\<rparr> else ?b'"
    have dc: "distinct ?chunk" using d by simp
    have "set (take i ?L) \<inter> set (drop i ?L) = {}"
      using d by (rule set_take_disj_set_drop_if_distinct) simp
    moreover have "set ?chunk \<subseteq> set (drop i ?L)" by (rule set_take_subset)
    ultimately have "set ?chunk \<inter> set (take i ?L) = {}" by blast
    then have dj: "fset_of_list ?chunk |\<inter>| processed_users b = {||}"
      using pu0 by (auto simp: fset_of_list_elem)
    have t: "take (i + chunk_size) ?L = take i ?L @ ?chunk"
      by (simp add: take_add)
    from unfollow_chunk_204 [OF e p dc dj, of U]
    have pu: "processed_users ?b'' = fset_of_list (take (i + chunk_size) ?L)"
      and pf: "progress_file ?b'' = f0 @ ledger_lines (take (i + chunk_size) ?L)"
      using pu0 pf0 t by (simp_all add: ledger_lines_append)
    from "1.IH" [OF True refl refl refl pu pf e p d l] True
    show ?thesis
      by (subst (1 2) unfollow_chunks.simps) (simp add: Let_def)
  qed
qed

lemma enumerates_empty: "enumerates w {||} \<Longrightarrow> set_order w {||} = []"
  by (cases "set_order w {||}") (simp_all add: enumerates_def)

lemma enumerates_length:
  assumes "enumerates w S"
  shows "length (set_order w S) = fcard S"
proof -
  from assms have "fset_of_list (set_order w S) = S" and "distinct (set_order w S)"
    by (simp_all add: enumerates_def)
  with fcard_fset_of_list [of "set_order w S"] show ?thesis by simp
qed

text \<open>
  C3, as stated, fails: no line of the program reads the progress file. A new process
  starts with an empty processed set whatever the file holds, and opens the file for
  writing, which empties it. With \<^verbatim>\<open>aa\<close> recorded by an interrupted run, the resumed run
  unfollows \<^verbatim>\<open>aa\<close> again when the listing still names it; and when the listing no longer
  names it, the file ends with \<^verbatim>\<open>cc\<close> alone, the record of \<^verbatim>\<open>aa\<close> lost.
\<close>

theorem progress_ledger_resumed_counterexample:
  "processed_users (new_bot (10 # ascii ''aa'')) = {||}
   \<and> Post (ascii ''aa'') \<in> set (trace (snd (find_and_unfollow_nonreciprocal ascii_tables
        (listing_world [ascii ''aa'', ascii ''bb'', ascii ''cc''] [ascii ''bb''])
        (new_bot (10 # ascii ''aa'')))))
   \<and> progress_file (snd (find_and_unfollow_nonreciprocal ascii_tables
        (listing_world [ascii ''bb'', ascii ''cc''] [ascii ''bb''])
        (new_bot (10 # ascii ''aa''))))
     = 10 # ascii ''cc''"
  by code_simp

text \<open>
  C3, amended: the progress file is never read. A run of a new bot (its processed set is
  empty) whose two collection passes succeed and whose unfollow requests are all
  answered with 204 overwrites the file, whatever it held, and leaves in it each target
  (a name followed that is no follower) exactly once, one to the line, and nothing else;
  the processed set ends as the set of targets. For the names followed \<^verbatim>\<open>aa\<close>, \<^verbatim>\<open>bb\<close>,
  \<^verbatim>\<open>cc\<close> and the follower \<^verbatim>\<open>bb\<close> the file ends holding \<^verbatim>\<open>aa\<close> and \<^verbatim>\<open>cc\<close>.
\<close>

theorem progress_ledger_single_run:
  assumes fw: "get_users U w (ascii ''following'') (trace b) = (Inr following, tr1)"
    and fl: "get_users U w (ascii ''followers'') tr1 = (Inr followers, tr2)"
    and new: "processed_users b = {||}"
    and e: "\<And>tr. ensure w tr = Captured"
    and p: "\<And>tr name. \<exists>hdrs. post w tr name = Response 204 hdrs"
    and t: "targets = users_to_unfollow following followers"
    and en: "\<And>S. enumerates w S"
  shows "fst (find_and_unfollow_nonreciprocal U w b) = None
     \<and> progress_file (snd (find_and_unfollow_nonreciprocal U w b))
         = ledger_lines (set_order w targets)
     \<and> processed_users (snd (find_and_unfollow_nonreciprocal U w b)) = targets
     \<and> distinct (set_order w targets)
     \<and> fset_of_list (set_order w targets) = targets"
proof -
  let ?b1 = "b\<lparr>trace := tr2, progress_file := join_lines (set_order w (processed_users b))\<rparr>"
  have run: "find_and_unfollow_nonreciprocal U w b = (None, unfollow_chunks U w targets 0 ?b1)"
    using fw fl t by (simp add: find_and_unfollow_nonreciprocal_def)
  from en [of targets] have d: "distinct (set_order w targets)"
    and s: "fset_of_list (set_order w targets) = targets"
    by (simp_all add: enumerates_def)
  from en [of targets] have l: "length (set_order w targets) = fcard targets"
    by (rule enumerates_length)
  have f0: "progress_file ?b1 = [] @ ledger_lines (take 0 (set_order w targets))"
    using new enumerates_empty [OF en] by (simp add: ledger_lines_def)
  have p0: "processed_users ?b1 = fset_of_list (take 0 (set_order w targets))"
    using new by simp
  from unfollow_chunks_204 [OF e p d l p0 f0, of U] run d s show ?thesis
    by simp
qed

theorem progress_ledger_single_run_witness:
  "progress_file (snd (find_and_unfollow_nonreciprocal ascii_tables
        (listing_world [ascii ''aa'', ascii ''bb'', ascii ''cc''] [ascii ''bb''])
        (new_bot (10 # ascii ''zz''))))
     = 10 # ascii ''aa'' @ 10 # ascii ''cc''
   \<and> processed_users (snd (find_and_unfollow_nonreciprocal ascii_tables
        (listing_world [ascii ''aa'', ascii ''bb'', ascii ''cc''] [ascii ''bb''])
        (new_bot (10 # ascii ''zz''))))
     = {|ascii ''aa'', ascii ''cc''|}"
proof -
  let ?w = "listing_world [ascii ''aa'', ascii ''bb'', ascii ''cc''] [ascii ''bb'']"
  let ?b = "new_bot (10 # ascii ''zz'')"
  let ?following = "[\<lparr>username = ascii ''aa''\<rparr>, \<lparr>username = ascii ''bb''\<rparr>,
                     \<lparr>username = ascii ''cc''\<rparr>]"
  let ?followers = "[\<lparr>username = ascii ''bb''\<rparr>]"
  let ?tr1 = "[Harvest (ascii ''following''), Request (ascii ''following'') 1, Sleep 1]"
  let ?tr2 = "?tr1 @ [Harvest (ascii ''followers''), Request (ascii ''followers'') 1, Sleep 1]"
  have fw: "get_users ascii_tables ?w (ascii ''following'') (trace ?b) = (Inr ?following, ?tr1)"
    by code_simp
  have fl: "get_users ascii_tables ?w (ascii ''followers'') ?tr1 = (Inr ?followers, ?tr2)"
    by code_simp
  have new: "processed_users ?b = {||}"
    by (simp add: new_bot_def)
  have e: "\<And>tr. ensure ?w tr = Captured"
    by (simp add: listing_world_def quiet_world_def)
  have p: "\<And>tr name. \<exists>hdrs. post ?w tr name = Response 204 hdrs"
    by (simp add: listing_world_def quiet_world_def)
  have en: "\<And>S. enumerates ?w S"
    by (rule sorted_list_of_fset_enumerates) (simp add: listing_world_def quiet_world_def)
  have l: "ledger_lines (set_order ?w (users_to_unfollow ?following ?followers))
      = 10 # ascii ''aa'' @ 10 # ascii ''cc''"
    by code_simp
  have t: "users_to_unfollow ?following ?followers = {|ascii ''aa'', ascii ''cc''|}"
    by code_simp
  from progress_ledger_single_run [OF fw fl new e p refl en] l t
  show ?thesis by simp
qed

section \<open>Rate limiting in the unfollow driver\<close>

lemma lower_ascii_no_upper: "82 \<notin> set (lower_ascii k)"
  by (auto simp: lower_ascii_def)

lemma lower_ascii_not_retry_after: "lower_ascii k \<noteq> ascii ''Retry-After''"
proof
  assume "lower_ascii k = ascii ''Retry-After''"
  then have "82 \<in> set (lower_ascii k)" by (simp add: ascii_def)
  with lower_ascii_no_upper show False by blast
qed

lemma retry_after_never_found:
  "map_of (response_headers raw) (ascii ''Retry-After'') = None"
  by (induction raw)
     (simp_all add: response_headers_def lower_ascii_not_retry_after [symmetric])

lemma retry_after_header_default:
  "retry_after_header (response_headers raw) = ascii ''60''"
  by (simp add: retry_after_header_def retry_after_never_found)

lemma py_int_60: "py_int U (ascii ''60'') = Inr 60"
  by (simp add: py_int_def int_digits_def int_space_def digit_value_def int_max_str_digits_def
      ascii_def)

lemma try_unfollow_429:
  assumes "ensure w (trace b) = Captured"
    and "post w (trace b @ [EnsureAuth]) name = Response 429 raw"
  shows "try_unfollow U w name attempt b =
     (Inr Continue, b\<lparr>trace := trace b @ [EnsureAuth, Post name, Sleep 60]\<rparr>)"
  using assms
  by (simp add: try_unfollow_def ensure_auth_headers_def retry_after_header_default py_int_60)

lemma handle_rate_limit_60:
  "trace (snd (handle_rate_limit U raw b)) = trace b @ [Sleep 60]"
  by (simp add: handle_rate_limit_def retry_after_header_default py_int_60)

text \<open>
  C4 says that on a 429 response the driver sleeps at least as long as \<^verbatim>\<open>Retry-After\<close>
  tells. The program misses this: it looks the header up by the name \<^verbatim>\<open>'Retry-After'\<close>
  in a dictionary whose names are in lower case, so the lookup finds nothing and the
  driver sleeps the default of 60 seconds whatever the server sent. With
  \<^verbatim>\<open>Retry-After: 120\<close> it sleeps 60 seconds and then retries; the name is recorded after
  the 204.
\<close>

theorem unfollow_429_ignores_retry_after:
  "unfollow_user ascii_tables (throttled_once [(ascii ''Retry-After'', ascii ''120'')])
       (ascii ''bob'') (new_bot [])
     = (True,
        (new_bot [])\<lparr>processed_users := {|ascii ''bob''|},
                      trace := [EnsureAuth, Post (ascii ''bob''), Sleep 60,
                                EnsureAuth, Post (ascii ''bob''), SleepUniform 30 60]\<rparr>)
   \<and> response_headers [(ascii ''Retry-After'', ascii ''120'')]
     = [(ascii ''retry-after'', ascii ''120'')]
   \<and> retry_after_header (response_headers [(ascii ''Retry-After'', ascii ''120'')]) = ascii ''60''
   \<and> py_int ascii_tables (ascii ''120'') = Inr 120"
  by code_simp

end
